theory Spec2Isabelle
  imports Main
begin

section \<open>Single-precision arithmetic\<close>

text \<open>
  The program computes in C \<^verbatim>\<open>float\<close>. The model is IEEE 754 binary32 with
  round-to-nearest, ties-to-even, every operation rounded on its own (no fused
  multiply-add, no wider intermediate precision). A finite value is sign, mantissa and
  exponent, standing for \<open>\<plusminus> m * 2^e\<close>; the operations return it in the one form binary32
  has for that value: \<open>2^23 \<le> m < 2^24\<close> with \<open>-149 \<le> e \<le> 104\<close>, or \<open>m < 2^23\<close> with
  \<open>e = -149\<close> (subnormal), or \<open>m = 0\<close> with \<open>e = 0\<close> (a signed zero). One NaN stands for
  all NaNs.
\<close>

datatype f32 = Finite bool nat int | Infinity bool | NaN

text \<open>The number of binary digits of a natural number.\<close>

fun bitlen :: "nat \<Rightarrow> nat" where
  "bitlen n = (if n = 0 then 0 else Suc (bitlen (n div 2)))"

declare bitlen.simps [simp del]

text \<open>
  Dropping the \<open>k\<close> low bits of \<open>M\<close>, to nearest, ties to even:
  \<open>q\<close> is the quotient, \<open>r\<close> the dropped bits and \<open>h\<close> one half of the last place kept.
\<close>

definition rne_pick :: "nat \<Rightarrow> nat \<Rightarrow> nat \<Rightarrow> nat" where
  "rne_pick q r h = (if r < h \<or> (r = h \<and> even q) then q else q + 1)"

definition rne_shift :: "nat \<Rightarrow> nat \<Rightarrow> nat" where
  "rne_shift M k = (if k = 0 then M else rne_pick (M div 2 ^ k) (M mod 2 ^ k) (2 ^ (k - 1)))"

text \<open>A result with mantissa \<open>m\<close> at exponent \<open>e\<close>: a signed zero, an overflow to infinity, or finite.\<close>

definition mk_finite :: "bool \<Rightarrow> nat \<Rightarrow> int \<Rightarrow> f32" where
  "mk_finite s m e = (if m = 0 then Finite s 0 0 else if 104 < e then Infinity s else Finite s m e)"

definition carry :: "bool \<Rightarrow> nat \<Rightarrow> int \<Rightarrow> f32" where
  "carry s m e = (if m = 2 ^ 24 then mk_finite s (2 ^ 23) (e + 1) else mk_finite s m e)"

definition round_to :: "bool \<Rightarrow> nat \<Rightarrow> int \<Rightarrow> int \<Rightarrow> f32" where
  "round_to s M E e =
     (if e \<le> E then mk_finite s (M * 2 ^ nat (E - e)) e
      else carry s (rne_shift M (nat (e - E))) e)"

text \<open>
  The binary32 value nearest to \<open>\<plusminus> M * 2^E\<close>. The exponent of the result is the one
  that leaves 24 digits, and not less than -149.
\<close>

definition round_f32 :: "bool \<Rightarrow> nat \<Rightarrow> int \<Rightarrow> f32" where
  "round_f32 s M E = round_to s M E (max (E + int (bitlen M) - 24) (- 149))"

text \<open>The integer square root, two bits at a time.\<close>

definition isqrt_step :: "nat \<Rightarrow> nat \<Rightarrow> nat" where
  "isqrt_step r n = (if (r + 1) * (r + 1) \<le> n then r + 1 else r)"

fun isqrt :: "nat \<Rightarrow> nat" where
  "isqrt n = (if n < 2 then n else isqrt_step (2 * isqrt (n div 4)) n)"

declare isqrt.simps [simp del]

definition signed :: "bool \<Rightarrow> nat \<Rightarrow> int" where
  "signed s m = (if s then - int m else int m)"

text \<open>
  A quotient or a root that is not exact is rounded from its integer part with one more
  digit, set to 1: the integer parts below have at least 26 digits, so that no binary32
  value and no midpoint between two of them lies strictly between two integers.
\<close>

definition sticky :: "nat \<Rightarrow> bool \<Rightarrow> nat" where
  "sticky q exact = 2 * q + (if exact then 0 else 1)"

definition div_round :: "bool \<Rightarrow> nat \<Rightarrow> nat \<Rightarrow> int \<Rightarrow> nat \<Rightarrow> f32" where
  "div_round s m1 m2 E k =
     round_f32 s (sticky ((m1 * 2 ^ k) div m2) ((m1 * 2 ^ k) mod m2 = 0)) (E - int k - 1)"

definition sqrt_round :: "nat \<Rightarrow> int \<Rightarrow> f32" where
  "sqrt_round n E = round_f32 False (sticky (isqrt n) (isqrt n * isqrt n = n)) (E div 2 - 1)"

text \<open>
  The sum \<open>c * 2^e\<close> of two finite values, with the sign \<open>s\<close> of a sum that is zero:
  negative when both values are, positive otherwise.
\<close>

definition round_sum :: "bool \<Rightarrow> int \<Rightarrow> int \<Rightarrow> f32" where
  "round_sum s c e = (if c = 0 then Finite s 0 0 else round_f32 (c < 0) (nat \<bar>c\<bar>) e)"

instantiation f32 :: "{zero,one,plus,minus,uminus,times,inverse}"
begin

definition zero_f32 :: f32 where
  "zero_f32 = Finite False 0 0"

definition one_f32 :: f32 where
  "one_f32 = Finite False (2 ^ 23) (- 23)"

fun uminus_f32 :: "f32 \<Rightarrow> f32" where
  "uminus_f32 (Finite s m e) = Finite (\<not> s) m e"
| "uminus_f32 (Infinity s) = Infinity (\<not> s)"
| "uminus_f32 NaN = NaN"

fun plus_f32 :: "f32 \<Rightarrow> f32 \<Rightarrow> f32" where
  "plus_f32 NaN b = NaN"
| "plus_f32 a NaN = NaN"
| "plus_f32 (Infinity s) (Infinity t) = (if s = t then Infinity s else NaN)"
| "plus_f32 (Infinity s) (Finite t m e) = Infinity s"
| "plus_f32 (Finite s m e) (Infinity t) = Infinity t"
| "plus_f32 (Finite s1 m1 e1) (Finite s2 m2 e2) =
     round_sum (s1 \<and> s2)
       (signed s1 (m1 * 2 ^ nat (e1 - min e1 e2)) + signed s2 (m2 * 2 ^ nat (e2 - min e1 e2)))
       (min e1 e2)"

definition minus_f32 :: "f32 \<Rightarrow> f32 \<Rightarrow> f32" where
  "minus_f32 a b = a + (- b)"

fun times_f32 :: "f32 \<Rightarrow> f32 \<Rightarrow> f32" where
  "times_f32 NaN b = NaN"
| "times_f32 a NaN = NaN"
| "times_f32 (Infinity s) (Infinity t) = Infinity (s \<noteq> t)"
| "times_f32 (Infinity s) (Finite t m e) = (if m = 0 then NaN else Infinity (s \<noteq> t))"
| "times_f32 (Finite s m e) (Infinity t) = (if m = 0 then NaN else Infinity (s \<noteq> t))"
| "times_f32 (Finite s1 m1 e1) (Finite s2 m2 e2) = round_f32 (s1 \<noteq> s2) (m1 * m2) (e1 + e2)"

fun divide_f32 :: "f32 \<Rightarrow> f32 \<Rightarrow> f32" where
  "divide_f32 NaN b = NaN"
| "divide_f32 a NaN = NaN"
| "divide_f32 (Infinity s) (Infinity t) = NaN"
| "divide_f32 (Infinity s) (Finite t m e) = Infinity (s \<noteq> t)"
| "divide_f32 (Finite s m e) (Infinity t) = Finite (s \<noteq> t) 0 0"
| "divide_f32 (Finite s1 m1 e1) (Finite s2 m2 e2) =
     (if m2 = 0 then (if m1 = 0 then NaN else Infinity (s1 \<noteq> s2))
      else div_round (s1 \<noteq> s2) m1 m2 (e1 - e2) (bitlen m2 + 26))"

definition inverse_f32 :: "f32 \<Rightarrow> f32" where
  "inverse_f32 a = divide (Finite False (2 ^ 23) (- 23)) a"

instance ..

end

text \<open>\<^verbatim>\<open>sqrtf\<close>: correctly rounded, as IEEE 754 requires of the square root.\<close>

fun sqrtf :: "f32 \<Rightarrow> f32" where
  "sqrtf NaN = NaN"
| "sqrtf (Infinity s) = (if s then NaN else Infinity False)"
| "sqrtf (Finite s m e) =
     (if m = 0 then Finite s 0 0
      else if s then NaN
      else if even e then sqrt_round (m * 2 ^ 50) (e - 50)
      else sqrt_round (m * 2 ^ 51) (e - 51))"

text \<open>The conversion of an unsigned integer to \<^verbatim>\<open>float\<close>.\<close>

definition f32_of_nat :: "nat \<Rightarrow> f32" where
  "f32_of_nat n = round_f32 False n 0"

text \<open>
  The conversion of a \<^verbatim>\<open>float\<close> to \<^verbatim>\<open>size_t\<close> (64 bits): the fraction is
  discarded; the behaviour is undefined (\<open>None\<close>) when the integral part is not a value
  of \<^verbatim>\<open>size_t\<close>.
\<close>

definition integral_part :: "nat \<Rightarrow> int \<Rightarrow> nat" where
  "integral_part m e = (if 0 \<le> e then m * 2 ^ nat e else m div 2 ^ nat (- e))"

fun size_t_of_f32 :: "f32 \<Rightarrow> nat option" where
  "size_t_of_f32 NaN = None"
| "size_t_of_f32 (Infinity s) = None"
| "size_t_of_f32 (Finite s m e) =
     (if s \<and> integral_part m e \<noteq> 0 then None
      else if 2 ^ 64 \<le> integral_part m e then None
      else Some (integral_part m e))"

text \<open>
  The floor of a value, as the specification has it for the number of steps: the
  greatest integer not above \<open>\<plusminus> m * 2^e\<close> (the division of integers rounds down).
\<close>

fun floor_f32 :: "f32 \<Rightarrow> int option" where
  "floor_f32 NaN = None"
| "floor_f32 (Infinity s) = None"
| "floor_f32 (Finite s m e) =
     Some (if 0 \<le> e then signed s m * 2 ^ nat e else signed s m div 2 ^ nat (- e))"

text \<open>The tests on a value: \<^verbatim>\<open>isnan\<close>, \<^verbatim>\<open>isfinite\<close>, \<open>z == 0.0f\<close> and \<open>z > 0.0f\<close>.\<close>

fun is_nan :: "f32 \<Rightarrow> bool" where
  "is_nan NaN = True"
| "is_nan (Infinity s) = False"
| "is_nan (Finite s m e) = False"

fun is_finite :: "f32 \<Rightarrow> bool" where
  "is_finite (Finite s m e) = True"
| "is_finite (Infinity s) = False"
| "is_finite NaN = False"

fun is_zero :: "f32 \<Rightarrow> bool" where
  "is_zero (Finite s m e) = (m = 0)"
| "is_zero (Infinity s) = False"
| "is_zero NaN = False"

fun is_positive :: "f32 \<Rightarrow> bool" where
  "is_positive (Finite s m e) = (\<not> s \<and> 0 < m)"
| "is_positive (Infinity s) = (\<not> s)"
| "is_positive NaN = False"

text \<open>The form in which the operations return a value (see above).\<close>

fun canonical :: "f32 \<Rightarrow> bool" where
  "canonical (Finite s m e) =
     (if m = 0 then e = 0
      else (bitlen m = 24 \<and> - 149 \<le> e \<or> bitlen m < 24 \<and> e = - 149) \<and> e \<le> 104)"
| "canonical (Infinity s) = True"
| "canonical NaN = True"

text \<open>The constants \<^verbatim>\<open>0.5f\<close>, \<^verbatim>\<open>2.0f\<close> and \<^verbatim>\<open>100.0f\<close>.\<close>

definition half :: f32 where
  "half = Finite False (2 ^ 23) (- 24)"

definition two :: f32 where
  "two = Finite False (2 ^ 23) (- 22)"

definition Default_Debug_Acceleration_Scale :: f32 where
  "Default_Debug_Acceleration_Scale = f32_of_nat 100"

section \<open>Bodies, the force between two of them, and the integrator\<close>

record body_t =
  x :: f32
  y :: f32
  ax :: f32
  ay :: f32
  vx :: f32
  vy :: f32
  mass :: f32

text \<open>
  \<^verbatim>\<open>calculate_newton_gravity_acceleration\<close>. The global
  \<^verbatim>\<open>simulation_softening_length_squared\<close> is the first argument; the two results
  \<^verbatim>\<open>*ax\<close> and \<^verbatim>\<open>*ay\<close> are set to zero first and then added to.
\<close>

definition calculate_newton_gravity_acceleration :: "f32 \<Rightarrow> body_t \<Rightarrow> body_t \<Rightarrow> f32 \<times> f32" where
  "calculate_newton_gravity_acceleration simulation_softening_length_squared first_body second_body =
     (let ax0 = 0;
          ay0 = 0;
          galactic_plane_r_x = x second_body - x first_body;
          galactic_plane_r_y = y second_body - y first_body;
          distance_squared =
            (galactic_plane_r_x * galactic_plane_r_x + galactic_plane_r_y * galactic_plane_r_y)
              + simulation_softening_length_squared;
          distance_squared_cubed = distance_squared * distance_squared * distance_squared;
          inverse = 1 / sqrtf distance_squared_cubed;
          scale = mass second_body * inverse
      in (ax0 + galactic_plane_r_x * scale, ay0 + galactic_plane_r_y * scale))"

text \<open>\<^verbatim>\<open>integrate\<close>: four assignments, each reading the body the one before has left.\<close>

definition integrate :: "body_t \<Rightarrow> f32 \<Rightarrow> body_t" where
  "integrate body delta_time =
     (let b1 = body\<lparr>vx := vx body + ax body * delta_time\<rparr>;
          b2 = b1\<lparr>vy := vy b1 + ay b1 * delta_time\<rparr>;
          b3 = b2\<lparr>x := x b2 + vx b2 * delta_time\<rparr>;
          b4 = b3\<lparr>y := y b3 + vy b3 * delta_time\<rparr>
      in b4)"

text \<open>
  The Force Kernel as the specification words it: displacement, softened squared
  distance, inverse cube, and the displacement scaled by mass times inverse cube.
\<close>

definition displacement :: "body_t \<Rightarrow> body_t \<Rightarrow> f32 \<times> f32" where
  "displacement source target = (x target - x source, y target - y source)"

definition distance_sq :: "f32 \<Rightarrow> f32 \<times> f32 \<Rightarrow> f32" where
  "distance_sq softening_length_squared d = (fst d * fst d + snd d * snd d) + softening_length_squared"

definition inverse_cubed :: "f32 \<Rightarrow> f32" where
  "inverse_cubed dsq = 1 / sqrtf (dsq * dsq * dsq)"

definition force_kernel_spec :: "f32 \<Rightarrow> body_t \<Rightarrow> body_t \<Rightarrow> f32 \<times> f32" where
  "force_kernel_spec softening_length_squared source target =
     (let d = displacement source target;
          k = mass target * inverse_cubed (distance_sq softening_length_squared d)
      in (fst d * k, snd d * k))"

text \<open>Equal as numbers, as C's \<open>==\<close> has it for values that are not NaN: the same value, or two zeros.\<close>

definition same_number :: "f32 \<Rightarrow> f32 \<Rightarrow> bool" where
  "same_number a b = (a = b \<or> (is_zero a \<and> is_zero b))"

section \<open>One step of one worker\<close>

text \<open>
  The loop over \<open>j\<close> of \<^verbatim>\<open>main\<close>: the contributions of the bodies \<open>js\<close> on body
  \<open>i\<close>, added in the order of \<open>js\<close>. \<^verbatim>\<open>first_body == second_body\<close> compares two
  pointers into the one array, that is, the indices.
\<close>

fun inner_loop :: "f32 \<Rightarrow> body_t list \<Rightarrow> nat \<Rightarrow> nat list \<Rightarrow> f32 \<times> f32 \<Rightarrow> f32 \<times> f32" where
  "inner_loop s2 bodies i [] sums = sums"
| "inner_loop s2 bodies i (j # js) sums =
     (if i = j then inner_loop s2 bodies i js sums
      else inner_loop s2 bodies i js
             (fst sums + fst (calculate_newton_gravity_acceleration s2 (bodies ! i) (bodies ! j)),
              snd sums + snd (calculate_newton_gravity_acceleration s2 (bodies ! i) (bodies ! j))))"

text \<open>
  The loop over the slice. The state is the process's copy of the global array, its
  slice buffer \<^verbatim>\<open>local_bodies\<close> and the offset of \<^verbatim>\<open>p\<close> in it. The sum is stored
  in the global array's body, and the body is copied to \<^verbatim>\<open>*p++\<close>.
\<close>

fun force_loop :: "f32 \<Rightarrow> nat \<Rightarrow> nat list \<Rightarrow> body_t list \<times> body_t list \<times> nat \<Rightarrow> body_t list \<times> body_t list \<times> nat" where
  "force_loop s2 body_count [] st = st"
| "force_loop s2 body_count (i # is) (bodies, local_bodies, p) =
     (let sums = inner_loop s2 bodies i [0..<body_count] (0, 0);
          first_body = (bodies ! i)\<lparr>ax := fst sums, ay := snd sums\<rparr>
      in force_loop s2 body_count is (bodies[i := first_body], local_bodies[p := first_body], p + 1))"

text \<open>The second loop: the integrator on every body of the slice buffer.\<close>

fun integrate_loop :: "f32 \<Rightarrow> nat list \<Rightarrow> body_t list \<Rightarrow> body_t list" where
  "integrate_loop delta_time [] local_bodies = local_bodies"
| "integrate_loop delta_time (i # is) local_bodies =
     integrate_loop delta_time is (local_bodies[i := integrate (local_bodies ! i) delta_time])"

text \<open>
  What the process of rank \<open>rank\<close> does between two exchanges: its copy of the global
  array and its slice buffer after the two loops.
\<close>

definition worker_update :: "f32 \<Rightarrow> f32 \<Rightarrow> nat \<Rightarrow> nat \<Rightarrow> nat \<Rightarrow> body_t list \<Rightarrow> body_t list \<Rightarrow> body_t list \<times> body_t list" where
  "worker_update s2 delta_time body_count bodies_per_process rank bodies local_bodies =
     (let slice_start = rank * bodies_per_process;
          st = force_loop s2 body_count [slice_start..<slice_start + bodies_per_process]
                 (bodies, local_bodies, 0)
      in (fst st, integrate_loop delta_time [0..<bodies_per_process] (fst (snd st))))"

text \<open>
  The step of a worker as the specification words it, to compare: one loop over the
  slice in which each owned body has its sum stored and the Integrator applied to it,
  in the Body Store, before the next owned body.
\<close>

fun in_place_loop :: "f32 \<Rightarrow> f32 \<Rightarrow> nat \<Rightarrow> nat list \<Rightarrow> body_t list \<Rightarrow> body_t list" where
  "in_place_loop s2 delta_time body_count [] bodies = bodies"
| "in_place_loop s2 delta_time body_count (i # is) bodies =
     (let sums = inner_loop s2 bodies i [0..<body_count] (0, 0);
          first_body = (bodies ! i)\<lparr>ax := fst sums, ay := snd sums\<rparr>
      in in_place_loop s2 delta_time body_count is (bodies[i := integrate first_body delta_time]))"

text \<open>
  The total acceleration on body \<open>i\<close>: the sum, from zero and in index order, of the
  force of every body \<open>j \<noteq> i\<close> of the array.
\<close>

definition total_acceleration :: "f32 \<Rightarrow> body_t list \<Rightarrow> nat \<Rightarrow> f32 \<times> f32" where
  "total_acceleration s2 bodies i =
     fold (\<lambda>j sums.
             (fst sums + fst (calculate_newton_gravity_acceleration s2 (bodies ! i) (bodies ! j)),
              snd sums + snd (calculate_newton_gravity_acceleration s2 (bodies ! i) (bodies ! j))))
          (filter (\<lambda>j. j \<noteq> i) [0..<length bodies]) (0, 0)"

text \<open>
  Body \<open>i\<close> with its total acceleration stored, and that body after the integrator:
  what a step makes of body \<open>i\<close> of the array \<open>bodies\<close>.
\<close>

definition stored_body :: "f32 \<Rightarrow> body_t list \<Rightarrow> nat \<Rightarrow> body_t" where
  "stored_body s2 bodies i =
     (bodies ! i)\<lparr>ax := fst (total_acceleration s2 bodies i),
                   ay := snd (total_acceleration s2 bodies i)\<rparr>"

definition advance_body :: "f32 \<Rightarrow> f32 \<Rightarrow> body_t list \<Rightarrow> nat \<Rightarrow> body_t" where
  "advance_body s2 delta_time bodies i = integrate (stored_body s2 bodies i) delta_time"

section \<open>The partition\<close>

datatype diagnostic = Usage | Assertion_Failed

text \<open>
  Lines 232 to 248 of \<^verbatim>\<open>main\<close>: the assertion, \<^verbatim>\<open>bodies_per_process\<close> and
  \<^verbatim>\<open>slice_start\<close>. The result is \<open>(slice_start, bodies_per_process)\<close>. MPI gives
  \<open>0 < w_size\<close> and \<open>rank < w_size\<close>; the product then is at most \<open>body_count\<close> and does
  not wrap.
\<close>

definition partition_slice :: "nat \<Rightarrow> nat \<Rightarrow> nat \<Rightarrow> diagnostic + nat \<times> nat" where
  "partition_slice body_count w_size rank =
     (if body_count mod w_size \<noteq> 0 then Inl Assertion_Failed
      else Inr (rank * (body_count div w_size), body_count div w_size))"

definition slice_indices :: "nat \<times> nat \<Rightarrow> nat set" where
  "slice_indices sl = {fst sl ..< fst sl + snd sl}"

section \<open>The environment of a run\<close>

text \<open>
  What the program takes from its C library and its platform. \<open>rand\<close> is the sequence
  the calls of \<^verbatim>\<open>rand()\<close> return, in the order of the calls: the program never calls
  \<^verbatim>\<open>srand\<close>, so it is the sequence of seed 1 in every run. \<open>angle_double\<close> is the part
  of the angle that C evaluates in \<^verbatim>\<open>double\<close>: \<open>angle_double a b\<close> is
  \<^verbatim>\<open>(float)(a * M_PI + b)\<close>. \<open>malloc_ok n\<close> tells whether an allocation of \<open>n\<close> bytes
  succeeds, and \<open>uninitialized r i\<close> is what the fresh slice buffer of rank \<open>r\<close> holds
  at index \<open>i\<close>.
\<close>

record env =
  rand :: "nat \<Rightarrow> nat"
  RAND_MAX :: nat
  angle_double :: "f32 \<Rightarrow> f32 \<Rightarrow> f32"
  cosf :: "f32 \<Rightarrow> f32"
  sinf :: "f32 \<Rightarrow> f32"
  malloc_ok :: "nat \<Rightarrow> bool"
  uninitialized :: "nat \<Rightarrow> nat \<Rightarrow> body_t"

text \<open>\<^verbatim>\<open>unit_random\<close>, at the \<open>k\<close>-th call of \<^verbatim>\<open>rand()\<close>.\<close>

definition unit_random :: "env \<Rightarrow> nat \<Rightarrow> f32" where
  "unit_random env k = f32_of_nat (rand env k) / f32_of_nat (RAND_MAX env)"

text \<open>
  The body of the loop of \<^verbatim>\<open>generate_debug_data\<close> for index \<open>i\<close>, when \<open>k\<close> calls of
  \<^verbatim>\<open>rand()\<close> have gone before: it makes five calls, for the angle, \<open>x\<close>, \<open>y\<close>,
  the mass and the speed, in this order.
\<close>

definition generate_body :: "env \<Rightarrow> f32 \<Rightarrow> f32 \<Rightarrow> nat \<Rightarrow> nat \<Rightarrow> nat \<Rightarrow> body_t" where
  "generate_body env initial_body_mass debug_acceleration_scale body_count i k =
     (let angle = angle_double env (f32_of_nat i / f32_of_nat body_count * two)
                    ((unit_random env k - half) * half);
          body_x = unit_random env (k + 1);
          body_y = unit_random env (k + 2);
          body_mass = initial_body_mass * (unit_random env (k + 3) + half);
          random = unit_random env (k + 4)
      in \<lparr>x = body_x, y = body_y, ax = 0, ay = 0,
          vx = cosf env angle * debug_acceleration_scale * random,
          vy = sinf env angle * debug_acceleration_scale * random,
          mass = body_mass\<rparr>)"

definition generate_debug_data :: "env \<Rightarrow> f32 \<Rightarrow> f32 \<Rightarrow> nat \<Rightarrow> body_t list" where
  "generate_debug_data env initial_body_mass debug_acceleration_scale body_count =
     map (\<lambda>i. generate_body env initial_body_mass debug_acceleration_scale body_count i (5 * i))
       [0..<body_count]"

section \<open>The run\<close>

text \<open>
  \<^verbatim>\<open>MPI_Bcast\<close> and \<^verbatim>\<open>MPI_Allgather\<close> leave the same array in every process, so one
  list stands for the array \<^verbatim>\<open>bodies\<close> of every process at the start of a step.
  \<^verbatim>\<open>MPI_Allgather\<close> puts the slice buffer of rank \<open>r\<close> at offset
  \<open>r * bodies_per_process\<close> of the array, for every rank: with
  \<open>w_size * bodies_per_process = body_count\<close> the array becomes the slice buffers, one
  after the other.
\<close>

definition allgather :: "body_t list list \<Rightarrow> body_t list" where
  "allgather local_buffers = concat local_buffers"

definition step :: "f32 \<Rightarrow> f32 \<Rightarrow> nat \<Rightarrow> nat \<Rightarrow> nat \<Rightarrow> body_t list \<times> body_t list list \<Rightarrow> body_t list \<times> body_t list list" where
  "step s2 delta_time body_count w_size bodies_per_process st =
     (let local_buffers =
            map (\<lambda>r. snd (worker_update s2 delta_time body_count bodies_per_process r
                             (fst st) (snd st ! r)))
              [0..<w_size]
      in (allgather local_buffers, local_buffers))"

text \<open>The leader's loop after the exchange: two entries of \<^verbatim>\<open>accelerations\<close> for each body.\<close>

fun record_loop :: "body_t list \<Rightarrow> nat list \<Rightarrow> f32 list \<Rightarrow> f32 list" where
  "record_loop bodies [] accelerations = accelerations"
| "record_loop bodies (i # is) accelerations =
     record_loop bodies is (accelerations @ [ax (bodies ! i), ay (bodies ! i)])"

text \<open>
  The loop over \<open>k\<close>: the array, the slice buffers of all ranks and the leader's
  \<^verbatim>\<open>accelerations\<close>, as far as they are written.
\<close>

fun simulate :: "f32 \<Rightarrow> f32 \<Rightarrow> nat \<Rightarrow> nat \<Rightarrow> nat \<Rightarrow> nat \<Rightarrow> body_t list \<times> body_t list list \<times> f32 list \<Rightarrow> body_t list \<times> body_t list list \<times> f32 list" where
  "simulate s2 delta_time body_count w_size bodies_per_process 0 st = st"
| "simulate s2 delta_time body_count w_size bodies_per_process (Suc k) (bodies, local_buffers, accelerations) =
     (let st = step s2 delta_time body_count w_size bodies_per_process (bodies, local_buffers)
      in simulate s2 delta_time body_count w_size bodies_per_process k
           (fst st, snd st, record_loop (fst st) [0..<body_count] accelerations))"

text \<open>The array after \<open>k\<close> steps.\<close>

definition bodies_after :: "f32 \<Rightarrow> f32 \<Rightarrow> nat \<Rightarrow> nat \<Rightarrow> nat \<Rightarrow> nat \<Rightarrow> body_t list \<times> body_t list list \<Rightarrow> body_t list" where
  "bodies_after s2 delta_time body_count w_size bodies_per_process k st =
     fst ((step s2 delta_time body_count w_size bodies_per_process ^^ k) st)"

text \<open>What \<^verbatim>\<open>printf\<close> writes: a line \<^verbatim>\<open>%zu\<close>, \<^verbatim>\<open>%f\<close> or \<^verbatim>\<open>%f %f\<close>, with its values.\<close>

datatype line = Line_zu nat | Line_f f32 | Line_ff f32 f32

definition header :: "nat \<Rightarrow> f32 \<Rightarrow> f32 \<Rightarrow> line list" where
  "header body_count time_period delta_time =
     [Line_zu body_count, Line_f time_period, Line_f delta_time]"

fun dump_loop :: "body_t list \<Rightarrow> nat list \<Rightarrow> line list" where
  "dump_loop bodies [] = []"
| "dump_loop bodies (i # is) =
     [Line_ff (x (bodies ! i)) (y (bodies ! i)),
      Line_ff (ax (bodies ! i)) (ay (bodies ! i)),
      Line_ff (vx (bodies ! i)) (vy (bodies ! i)),
      Line_f (mass (bodies ! i))] @ dump_loop bodies is"

function print_loop :: "f32 list \<Rightarrow> nat \<Rightarrow> nat \<Rightarrow> line list" where
  "print_loop accelerations acceleration_entries i =
     (if i < acceleration_entries
      then Line_ff (accelerations ! i) (accelerations ! (i + 1))
             # print_loop accelerations acceleration_entries (i + 2)
      else [])"
  by pat_completeness auto
termination
  by (relation "measure (\<lambda>(accelerations, acceleration_entries, i). acceleration_entries - i)") auto

declare print_loop.simps [simp del]

text \<open>
  How a process ends: it returns \<^verbatim>\<open>EXIT_SUCCESS\<close> or \<^verbatim>\<open>EXIT_FAILURE\<close> from
  \<^verbatim>\<open>main\<close>, it is aborted by a failed \<^verbatim>\<open>assert\<close>, or its behaviour is undefined.
\<close>

datatype status = EXIT_SUCCESS | EXIT_FAILURE | Aborted | Undefined

record outcome =
  stdout :: "line list"
  stderr :: "diagnostic list"
  status :: status

text \<open>An argument of the command line, as \<^verbatim>\<open>strtof\<close> and as \<^verbatim>\<open>strtol\<close> read it.\<close>

datatype arg = Arg (strtof: f32) (strtol: int)

definition aborted :: "line list \<Rightarrow> outcome" where
  "aborted printed = \<lparr>stdout = printed, stderr = [Assertion_Failed], status = Aborted\<rparr>"

definition undefined_behaviour :: "line list \<Rightarrow> outcome" where
  "undefined_behaviour printed = \<lparr>stdout = printed, stderr = [], status = Undefined\<rparr>"

definition INT_MAX :: nat where
  "INT_MAX = 2 ^ 31 - 1"

text \<open>
  \<^verbatim>\<open>main\<close> in the process of rank \<open>rank\<close> among \<open>w_size\<close> (MPI gives
  \<open>rank < w_size\<close>), with \<open>argv\<close> of length \<^verbatim>\<open>argc\<close>. \<^verbatim>\<open>size_t\<close> has 64 bits, a
  body 28 bytes and a \<^verbatim>\<open>float\<close> 4. A collective operation returns in a process only
  when every process calls it: \<open>main\<close> describes a process whose peers get as far as it
  does. \<open>bodies\<close> is what the leader generates and what the broadcast leaves in every
  process. The behaviour is undefined when an array is allocated with a size that has
  wrapped and is then written in full, when the quotient has no value in
  \<^verbatim>\<open>size_t\<close>, and when \<^verbatim>\<open>body_count\<close> is no value of the \<^verbatim>\<open>int\<close> that counts
  the elements of a message and the bodies of the leader's loop.
\<close>

definition main :: "env \<Rightarrow> nat \<Rightarrow> nat \<Rightarrow> arg list \<Rightarrow> outcome" where
  "main env w_size rank argv =
     (if length argv < 6 then \<lparr>stdout = [], stderr = [Usage], status = EXIT_FAILURE\<rparr>
      else
        let time_period = strtof (argv ! 1);
            delta_time = strtof (argv ! 2);
            body_count = nat (strtol (argv ! 3) mod 2 ^ 64);
            initial_body_mass = strtof (argv ! 4);
            softening_length = strtof (argv ! 5);
            simulation_softening_length_squared = softening_length * softening_length;
            debug_acceleration_scale =
              (if 6 < length argv then strtof (argv ! 6) else Default_Debug_Acceleration_Scale);
            bodies = generate_debug_data env initial_body_mass debug_acceleration_scale body_count;
            printed =
              (if rank = 0
               then header body_count time_period delta_time @ dump_loop bodies [0..<body_count]
               else []);
            bodies_per_process = snd (projr (partition_slice body_count w_size rank))
        in if \<not> malloc_ok env ((28 * body_count) mod 2 ^ 64) then aborted []
           else if 2 ^ 64 \<le> 28 * body_count then undefined_behaviour []
           else if partition_slice body_count w_size rank = Inl Assertion_Failed then aborted printed
           else if \<not> malloc_ok env (28 * bodies_per_process) then aborted printed
           else case size_t_of_f32 (time_period / delta_time) of
             None \<Rightarrow> undefined_behaviour printed
           | Some iterations \<Rightarrow>
               let acceleration_entries = (iterations * body_count * 2) mod 2 ^ 64
               in if rank = 0 \<and> \<not> malloc_ok env ((4 * acceleration_entries) mod 2 ^ 64)
                  then aborted printed
                  else if INT_MAX < body_count then undefined_behaviour printed
                  else if rank = 0 \<and> 2 ^ 64 \<le> 8 * iterations * body_count
                  then undefined_behaviour printed
                  else
                    let local_buffers =
                          map (\<lambda>r. map (uninitialized env r) [0..<bodies_per_process]) [0..<w_size];
                        final = simulate simulation_softening_length_squared delta_time body_count
                                  w_size bodies_per_process iterations (bodies, local_buffers, [])
                    in \<lparr>stdout =
                          printed @
                          (if rank = 0 then print_loop (snd (snd final)) acceleration_entries 0
                           else []),
                        stderr = [], status = EXIT_SUCCESS\<rparr>)"

text \<open>
  An environment for examples. The calls of \<^verbatim>\<open>rand()\<close> return 0, but the seventh
  returns \<^verbatim>\<open>RAND_MAX\<close> and the fourth, the ninth and so on return \<open>2^30\<close>: the first
  two bodies are generated at (0, 0) and (1, 0), at rest, with the initial body mass.
  Every allocation succeeds, and fresh memory holds NaN.
\<close>

definition example_env :: env where
  "example_env =
     \<lparr>rand = (\<lambda>k. if k = 6 then 2147483647 else if k mod 5 = 3 then 1073741824 else 0),
      RAND_MAX = 2147483647, angle_double = (\<lambda>a b. 0),
      cosf = (\<lambda>a. 1), sinf = (\<lambda>a. 0), malloc_ok = (\<lambda>n. True),
      uninitialized = (\<lambda>r i. \<lparr>x = NaN, y = NaN, ax = NaN, ay = NaN, vx = NaN, vy = NaN, mass = NaN\<rparr>)\<rparr>"

text \<open>The constant \<^verbatim>\<open>0.25f\<close>, and the command line \<^verbatim>\<open>nbody 0.5 0.25 2 1 0\<close>.\<close>

definition quarter :: f32 where
  "quarter = Finite False (2 ^ 23) (- 25)"

definition example_argv :: "arg list" where
  "example_argv = [Arg 0 0, Arg half 0, Arg quarter 0, Arg two 2, Arg 1 1, Arg 0 0]"

text \<open>The trace the specification describes: one line for each body of each step, step by step.\<close>

definition trace_of_step :: "body_t list \<Rightarrow> line list" where
  "trace_of_step bodies = map (\<lambda>b. Line_ff (ax b) (ay b)) bodies"

section \<open>Evaluation\<close>

lemmas f32_eval =
  rne_pick_def rne_shift_def mk_finite_def carry_def round_to_def round_f32_def
  isqrt_step_def isqrt.simps bitlen.simps signed_def round_sum_def sticky_def div_round_def sqrt_round_def
  zero_f32_def one_f32_def minus_f32_def inverse_f32_def f32_of_nat_def integral_part_def
  half_def two_def quarter_def

section \<open>Properties of the rounding\<close>

subsection \<open>The number of digits\<close>

lemma bitlen_0: "bitlen 0 = 0"
  by (simp add: bitlen.simps)

lemma bitlen_pos: "0 < n \<Longrightarrow> bitlen n = Suc (bitlen (n div 2))"
  by (subst bitlen.simps) simp

lemma bitlen_le_iff: "bitlen n \<le> k \<longleftrightarrow> n < 2 ^ k"
proof (induction n arbitrary: k rule: bitlen.induct)
  case (1 n)
  show ?case
  proof (cases "n = 0")
    case True
    then show ?thesis by (simp add: bitlen_0)
  next
    case False
    then have b: "bitlen n = Suc (bitlen (n div 2))" by (simp add: bitlen_pos)
    show ?thesis
    proof (cases k)
      case 0
      with False b show ?thesis by simp
    next
      case (Suc j)
      have "bitlen (n div 2) \<le> j \<longleftrightarrow> n div 2 < 2 ^ j" using 1 False by simp
      also have "\<dots> \<longleftrightarrow> n < 2 ^ Suc j" by auto
      finally show ?thesis using b Suc by simp
    qed
  qed
qed

lemma bitlen_lt: "n < 2 ^ bitlen n"
  using bitlen_le_iff [of n "bitlen n"] by simp

lemma bitlen_ge: "0 < n \<Longrightarrow> 2 ^ (bitlen n - 1) \<le> n"
  using bitlen_le_iff [of n "bitlen n - 1"] by (cases "bitlen n") (auto simp: not_less)

lemma bitlen_eqI: "2 ^ k \<le> n \<Longrightarrow> n < 2 ^ Suc k \<Longrightarrow> bitlen n = Suc k"
  using bitlen_le_iff [of n "Suc k"] bitlen_le_iff [of n k] by auto

lemma bitlen_zero_iff: "bitlen n = 0 \<longleftrightarrow> n = 0"
  using bitlen_le_iff [of n 0] by simp

lemma bitlen_mult_pow2: "0 < n \<Longrightarrow> bitlen (n * 2 ^ k) = bitlen n + k"
proof -
  assume n: "0 < n"
  then obtain j where j: "bitlen n = Suc j" by (cases "bitlen n") (auto simp: bitlen_zero_iff)
  have lo: "2 ^ j \<le> n" using bitlen_ge [OF n] j by simp
  have hi: "n < 2 ^ Suc j" using bitlen_lt [of n] j by simp
  have "2 ^ (j + k) \<le> n * 2 ^ k" using lo by (simp add: power_add)
  moreover have "n * 2 ^ k < 2 ^ Suc (j + k)" using hi by (simp add: power_add)
  ultimately have "bitlen (n * 2 ^ k) = Suc (j + k)" by (rule bitlen_eqI)
  then show ?thesis using j by simp
qed

lemma bitlen_div_pow2: "bitlen (n div 2 ^ k) = bitlen n - k"
proof (induction k arbitrary: n)
  case 0
  then show ?case by simp
next
  case (Suc k)
  have "n div 2 ^ Suc k = (n div 2) div 2 ^ k" by (simp add: div_mult2_eq)
  then have "bitlen (n div 2 ^ Suc k) = bitlen (n div 2) - k" using Suc by simp
  also have "\<dots> = bitlen n - Suc k" by (cases "n = 0") (simp_all add: bitlen_pos bitlen_0)
  finally show ?case .
qed

subsection \<open>Every operation returns a value in the binary32 form\<close>

lemma rne_pick_cases: "rne_pick q r h = q \<or> rne_pick q r h = q + 1"
  by (simp add: rne_pick_def)

lemma rne_shift_cases: "rne_shift M k = M div 2 ^ k \<or> rne_shift M k = M div 2 ^ k + 1"
  using rne_pick_cases [of "M div 2 ^ k" "M mod 2 ^ k" "2 ^ (k - 1)"]
  by (auto simp: rne_shift_def)

lemma rne_shift_exact: "rne_shift (m * 2 ^ k) k = m"
  by (simp add: rne_shift_def rne_pick_def)

lemma canonical_mk_finite_normal: "bitlen m = 24 \<Longrightarrow> - 149 \<le> e \<Longrightarrow> canonical (mk_finite s m e)"
  by (auto simp: mk_finite_def)

lemma canonical_mk_finite_subnormal: "bitlen m < 24 \<Longrightarrow> canonical (mk_finite s m (- 149))"
  by (auto simp: mk_finite_def)

lemma bitlen_pow2: "bitlen (2 ^ k) = Suc k"
  by (rule bitlen_eqI) simp_all

lemma bitlen_2_23: "bitlen 8388608 = 24"
  using bitlen_pow2 [of 23] by simp

lemma nat_int_shift: "nat (int m * 2 ^ k) = m * 2 ^ k"
  by (simp add: nat_mult_distrib nat_power_eq)

lemma int_shift_not_neg: "\<not> int m * 2 ^ k < 0"
  by (simp add: not_less)

lemma canonical_round_to_exact:
  assumes "e = max (E + int (bitlen M) - 24) (- 149)" and "e \<le> E"
  shows "canonical (mk_finite s (M * 2 ^ nat (E - e)) e)"
proof (cases "M = 0")
  case True
  then show ?thesis by (simp add: mk_finite_def)
next
  case False
  then have b: "bitlen (M * 2 ^ nat (E - e)) = bitlen M + nat (E - e)"
    by (simp add: bitlen_mult_pow2)
  show ?thesis
  proof (cases "- 149 \<le> E + int (bitlen M) - 24")
    case True
    with assms have "e = E + int (bitlen M) - 24" by simp
    with assms(2) b have "bitlen (M * 2 ^ nat (E - e)) = 24" by simp
    moreover have "- 149 \<le> e" using True assms by simp
    ultimately show ?thesis by (rule canonical_mk_finite_normal)
  next
    case F: False
    with assms have e: "e = - 149" by simp
    with F assms(2) b have "bitlen (M * 2 ^ nat (E - e)) < 24" by simp
    then show ?thesis unfolding e by (rule canonical_mk_finite_subnormal)
  qed
qed

lemma canonical_carry_normal:
  assumes "bitlen q = 24" and "m = q \<or> m = q + 1" and "- 149 \<le> e"
  shows "canonical (carry s m e)"
proof -
  have "q \<noteq> 0" using assms(1) by (cases "q = 0") (simp_all add: bitlen_0)
  then have q: "2 ^ 23 \<le> q" "q < 2 ^ 24"
    using bitlen_ge [of q] bitlen_lt [of q] assms(1) by simp_all
  show ?thesis
  proof (cases "m = 2 ^ 24")
    case True
    then show ?thesis using assms(3) by (simp add: carry_def canonical_mk_finite_normal bitlen_2_23)
  next
    case False
    with q assms(2) have "2 ^ 23 \<le> m" "m < 2 ^ Suc 23" by auto
    then have "bitlen m = Suc 23" by (rule bitlen_eqI)
    then show ?thesis using False assms(3) by (simp add: carry_def canonical_mk_finite_normal)
  qed
qed

lemma canonical_carry_subnormal:
  assumes "bitlen q < 24" and "m = q \<or> m = q + 1"
  shows "canonical (carry s m (- 149))"
proof -
  have q: "q < 2 ^ 23" using bitlen_le_iff [of q 23] assms(1) by simp
  with assms(2) have m: "m \<le> 2 ^ 23" by auto
  then have ne: "m \<noteq> 2 ^ 24" by simp
  show ?thesis
  proof (cases "m = 2 ^ 23")
    case True
    then show ?thesis using ne by (simp add: carry_def canonical_mk_finite_normal bitlen_2_23)
  next
    case False
    with m have "m < 2 ^ 23" by simp
    then have "bitlen m < 24" using bitlen_le_iff [of m 23] by simp
    then show ?thesis using ne by (simp add: carry_def canonical_mk_finite_subnormal)
  qed
qed

lemma canonical_round_f32: "canonical (round_f32 s M E)"
proof -
  define e where "e = max (E + int (bitlen M) - 24) (- 149)"
  show ?thesis
  proof (cases "e \<le> E")
    case True
    then show ?thesis
      using canonical_round_to_exact [OF e_def True] by (simp add: round_f32_def round_to_def e_def [symmetric])
  next
    case False
    define k where "k = nat (e - E)"
    have k: "0 < k" "int k = e - E" using False by (simp_all add: k_def)
    have bq: "bitlen (M div 2 ^ k) = bitlen M - k" by (rule bitlen_div_pow2)
    have step: "round_f32 s M E = carry s (rne_shift M k) e"
      using False by (simp add: round_f32_def round_to_def e_def [symmetric] k_def)
    show ?thesis
    proof (cases "- 149 \<le> E + int (bitlen M) - 24")
      case True
      then have e: "e = E + int (bitlen M) - 24" by (simp add: e_def)
      with k have "int k = int (bitlen M) - 24" by simp
      then have "bitlen (M div 2 ^ k) = 24" using bq by linarith
      moreover note rne_shift_cases [of M k]
      moreover have "- 149 \<le> e" using True e by simp
      ultimately show ?thesis unfolding step
        by (rule canonical_carry_normal [where q = "M div 2 ^ k"])
    next
      case F: False
      then have e: "e = - 149" by (simp add: e_def)
      with k F have "int (bitlen M) - int k < 24" by simp
      then have "bitlen (M div 2 ^ k) < 24" using bq by linarith
      then show ?thesis unfolding step e
        using rne_shift_cases [of M k] by (rule canonical_carry_subnormal [where q = "M div 2 ^ k"])
    qed
  qed
qed

text \<open>A binary32 value is rounded to itself; adding it to zero changes at most the sign of a zero.\<close>

lemma round_f32_canonical_id:
  assumes "canonical (Finite s m e)" and "0 < m" and "e' \<le> e"
  shows "round_f32 s (m * 2 ^ nat (e - e')) e' = Finite s m e"
proof -
  define j where "j = nat (e - e')"
  have j: "int j = e - e'" using assms(3) by (simp add: j_def)
  have b: "bitlen (m * 2 ^ j) = bitlen m + j" using assms(2) by (simp add: bitlen_mult_pow2)
  have c: "bitlen m = 24 \<and> - 149 \<le> e \<or> bitlen m < 24 \<and> e = - 149" and le: "e \<le> 104"
    using assms(1,2) by auto
  have t: "max (e' + int (bitlen (m * 2 ^ j)) - 24) (- 149) = e"
    using c j b by auto
  have m24: "m \<noteq> 2 ^ 24"
    using c bitlen_le_iff [of m 24] by auto
  show ?thesis
  proof (cases "e \<le> e'")
    case True
    with assms(3) have "e = e'" by simp
    then show ?thesis
      using t assms(2) le j by (simp add: round_f32_def round_to_def mk_finite_def j_def)
  next
    case False
    then have "nat (e - e') = j" by (simp add: j_def)
    then show ?thesis
      using t False m24 assms(2) le
      by (simp add: round_f32_def round_to_def j_def [symmetric] rne_shift_exact carry_def mk_finite_def)
  qed
qed

lemma zero_plus: "canonical z \<Longrightarrow> same_number (0 + z) z"
proof (cases z)
  case (Finite s m e)
  assume c: "canonical z"
  show ?thesis
  proof (cases "m = 0")
    case True
    then show ?thesis using Finite by (simp add: zero_f32_def same_number_def signed_def round_sum_def)
  next
    case False
    have "round_f32 s (m * 2 ^ nat (e - min 0 e)) (min 0 e) = Finite s m e"
      using c Finite False by (intro round_f32_canonical_id) simp_all
    then show ?thesis using Finite False
      by (cases s) (simp_all add: zero_f32_def same_number_def signed_def round_sum_def nat_int_shift int_shift_not_neg)
  qed
qed (simp_all add: zero_f32_def same_number_def)

lemma canonical_times: "canonical (a * b)"
  by (cases a; cases b) (simp_all add: canonical_round_f32)

lemma canonical_plus: "canonical (a + b)"
  by (cases a; cases b) (simp_all add: canonical_round_f32 round_sum_def)

lemma canonical_divide: "canonical (a / b)"
  by (cases a; cases b) (simp_all add: canonical_round_f32 div_round_def)

lemma canonical_sqrtf: "canonical (sqrtf a)"
  by (cases a) (simp_all add: canonical_round_f32 sqrt_round_def)

section \<open>The Force Kernel and the Integrator\<close>

lemma kernel_unfolded:
  "calculate_newton_gravity_acceleration s2 a b =
     (0 + fst (force_kernel_spec s2 a b), 0 + snd (force_kernel_spec s2 a b))"
  by (simp add: calculate_newton_gravity_acceleration_def force_kernel_spec_def displacement_def
      distance_sq_def inverse_cubed_def Let_def)

lemma canonical_force_kernel_spec:
  "canonical (fst (force_kernel_spec s2 a b))" "canonical (snd (force_kernel_spec s2 a b))"
  by (simp_all add: force_kernel_spec_def Let_def canonical_times)

text \<open>
  Claim C1. For every two bodies and every softening length, with the squared softening
  length computed once as \<open>softening_length * softening_length\<close>, the function returns
  the acceleration of the specification: displacement = target position - source
  position, distance_sq = |displacement|^2 + softening_length^2, inverse_cubed =
  1 / sqrt (distance_sq^3), acceleration = displacement * (target mass * inverse_cubed).
  The code adds each component to \<^verbatim>\<open>0.0f\<close>, which leaves the number as it is (a
  negative zero becomes the positive zero); the cube is \<open>d * d * d\<close> and the scalar factor
  of the displacement is \<open>mass * inverse_cubed\<close>, as in the code.
\<close>

theorem force_kernel_as_specified:
  "same_number
     (fst (calculate_newton_gravity_acceleration (softening_length * softening_length) source target))
     (fst (force_kernel_spec (softening_length * softening_length) source target)) \<and>
   same_number
     (snd (calculate_newton_gravity_acceleration (softening_length * softening_length) source target))
     (snd (force_kernel_spec (softening_length * softening_length) source target))"
  by (simp add: kernel_unfolded zero_plus canonical_force_kernel_spec)

text \<open>
  Claim C2, as amended. For every body and every \<open>delta_time\<close> the Integrator first
  adds acceleration * delta_time to the velocity and then adds the new velocity *
  delta_time to the position, and changes no other field: acceleration and mass stay.
  (The position so reached need not differ from old position + old velocity *
  delta_time when the acceleration is not zero: see the next theorem.)
\<close>

theorem integrate_velocity_then_position:
  "vx (integrate body delta_time) = vx body + ax body * delta_time \<and>
   vy (integrate body delta_time) = vy body + ay body * delta_time \<and>
   x (integrate body delta_time) = x body + vx (integrate body delta_time) * delta_time \<and>
   y (integrate body delta_time) = y body + vy (integrate body delta_time) * delta_time \<and>
   ax (integrate body delta_time) = ax body \<and>
   ay (integrate body delta_time) = ay body \<and>
   mass (integrate body delta_time) = mass body"
  by (simp add: integrate_def Let_def)

text \<open>
  Claim C2 as stated fails: a body at (1, 1) at rest with acceleration (1, 1), integrated
  with \<open>delta_time = 2^-30\<close>, gets the velocity \<open>2^-30\<close> and the position
  \<open>1 + 2^-60\<close>, which binary32 rounds to 1: the new position is the old position + old
  velocity * delta_time, though neither the acceleration nor \<open>delta_time\<close> is zero.
\<close>

theorem integrate_position_can_coincide:
  "\<not> is_zero (ax \<lparr>x = 1, y = 1, ax = 1, ay = 1, vx = 0, vy = 0, mass = 1\<rparr>) \<and>
   \<not> is_zero (ay \<lparr>x = 1, y = 1, ax = 1, ay = 1, vx = 0, vy = 0, mass = 1\<rparr>) \<and>
   \<not> is_zero (Finite False (2 ^ 23) (- 53)) \<and>
   x (integrate \<lparr>x = 1, y = 1, ax = 1, ay = 1, vx = 0, vy = 0, mass = 1\<rparr> (Finite False (2 ^ 23) (- 53)))
     = x \<lparr>x = 1, y = 1, ax = 1, ay = 1, vx = 0, vy = 0, mass = 1\<rparr>
       + vx \<lparr>x = 1, y = 1, ax = 1, ay = 1, vx = 0, vy = 0, mass = 1\<rparr> * Finite False (2 ^ 23) (- 53) \<and>
   y (integrate \<lparr>x = 1, y = 1, ax = 1, ay = 1, vx = 0, vy = 0, mass = 1\<rparr> (Finite False (2 ^ 23) (- 53)))
     = y \<lparr>x = 1, y = 1, ax = 1, ay = 1, vx = 0, vy = 0, mass = 1\<rparr>
       + vy \<lparr>x = 1, y = 1, ax = 1, ay = 1, vx = 0, vy = 0, mass = 1\<rparr> * Finite False (2 ^ 23) (- 53)"
  by (simp add: integrate_def Let_def f32_eval)

section \<open>The Partitioner\<close>

lemma slices_cover:
  fixes n w :: nat
  assumes "0 < w" and "n mod w = 0"
  shows "(\<Union>r\<in>{..<w}. {r * (n div w) ..< r * (n div w) + n div w}) = {0..<n}"
proof -
  define b where "b = n div w"
  have n: "n = w * b" using assms(2) mult_div_mod_eq [of w n] by (simp add: b_def)
  show ?thesis unfolding b_def [symmetric]
  proof (intro equalityI subsetI)
    fix i assume "i \<in> (\<Union>r\<in>{..<w}. {r * b ..< r * b + b})"
    then obtain r where r: "r < w" "r * b \<le> i" "i < r * b + b" by auto
    have "r * b + b = Suc r * b" by simp
    also have "\<dots> \<le> w * b" using r(1) by (intro mult_le_mono1) simp
    finally show "i \<in> {0..<n}" using r(3) n by simp
  next
    fix i assume "i \<in> {0..<n}"
    then have i: "i < w * b" using n by simp
    then have b: "0 < b" by (cases "b = 0") simp_all
    have "i div b < w" using i b by (simp add: less_mult_imp_div_less mult.commute)
    moreover have "i div b * b \<le> i" by (simp add: div_times_less_eq_dividend)
    moreover have "i < i div b * b + b"
      using b by (metis add.commute dividend_less_div_times)
    ultimately show "i \<in> (\<Union>r\<in>{..<w}. {r * b ..< r * b + b})"
      by (intro UN_I [of "i div b"]) simp_all
  qed
qed

lemma slices_disjoint:
  fixes b :: nat
  assumes "r1 \<noteq> r2"
  shows "{r1 * b ..< r1 * b + b} \<inter> {r2 * b ..< r2 * b + b} = {}"
proof -
  have *: "{p * b ..< p * b + b} \<inter> {q * b ..< q * b + b} = {}" if "p < q" for p q :: nat
  proof -
    have "p * b + b = Suc p * b" by simp
    also have "\<dots> \<le> q * b" using that by (intro mult_le_mono1) simp
    finally show ?thesis by auto
  qed
  show ?thesis
  proof (cases "r1 < r2")
    case True
    then show ?thesis by (rule *)
  next
    case False
    with assms have "r2 < r1" by simp
    then show ?thesis using * [of r2 r1] by (simp add: Int_commute)
  qed
qed

text \<open>
  Claim C4. With at least one worker: when \<open>body_count\<close> is divisible by \<open>w_size\<close>,
  every rank below \<open>w_size\<close> gets the slice of length \<open>body_count / w_size\<close> that starts
  at \<open>rank * (body_count / w_size)\<close>, the slices of all ranks together are exactly the
  indices below \<open>body_count\<close>, and the slices of two different ranks share no index;
  when it is not divisible, the assertion fails for every rank.
\<close>

theorem partition_exact_cover:
  assumes "0 < w_size"
  shows "(body_count mod w_size = 0 \<longrightarrow>
            (\<forall>rank<w_size. partition_slice body_count w_size rank
                = Inr (rank * (body_count div w_size), body_count div w_size)) \<and>
            (\<Union>rank\<in>{..<w_size}. slice_indices (projr (partition_slice body_count w_size rank)))
                = {0..<body_count} \<and>
            (\<forall>r1<w_size. \<forall>r2<w_size. r1 \<noteq> r2 \<longrightarrow>
                slice_indices (projr (partition_slice body_count w_size r1)) \<inter>
                slice_indices (projr (partition_slice body_count w_size r2)) = {})) \<and>
         (body_count mod w_size \<noteq> 0 \<longrightarrow>
            (\<forall>rank. partition_slice body_count w_size rank = Inl Assertion_Failed))"
proof (intro conjI impI allI)
  fix rank assume "body_count mod w_size = 0"
  then show "partition_slice body_count w_size rank
      = Inr (rank * (body_count div w_size), body_count div w_size)"
    by (simp add: partition_slice_def)
next
  assume d: "body_count mod w_size = 0"
  then show "(\<Union>rank\<in>{..<w_size}. slice_indices (projr (partition_slice body_count w_size rank)))
      = {0..<body_count}"
    using slices_cover [OF assms d] by (simp add: partition_slice_def slice_indices_def)
next
  fix r1 r2 :: nat
  assume "body_count mod w_size = 0" and "r1 \<noteq> r2"
  then show "slice_indices (projr (partition_slice body_count w_size r1)) \<inter>
      slice_indices (projr (partition_slice body_count w_size r2)) = {}"
    using slices_disjoint [of r1 r2 "body_count div w_size"]
    by (simp add: partition_slice_def slice_indices_def)
next
  fix rank assume "body_count mod w_size \<noteq> 0"
  then show "partition_slice body_count w_size rank = Inl Assertion_Failed"
    by (simp add: partition_slice_def)
qed

theorem partition_exact_cover_witness:
  "partition_slice 6 3 2 = Inr (4, 2) \<and>
   (\<Union>rank\<in>{..<3}. slice_indices (projr (partition_slice 6 3 rank))) = {0..<6} \<and>
   slice_indices (projr (partition_slice 6 3 0)) \<inter> slice_indices (projr (partition_slice 6 3 1)) = {} \<and>
   partition_slice 7 3 1 = Inl Assertion_Failed"
proof -
  have a: "(0::nat) < 3" by simp
  have d: "(6::nat) mod 3 = 0" by simp
  have n: "(7::nat) mod 3 \<noteq> 0" by simp
  have r: "(2::nat) < 3" "(0::nat) < 3" "(1::nat) < 3" "(0::nat) \<noteq> 1" by simp_all
  from partition_exact_cover [OF a, of 6] d r
  have "partition_slice 6 3 2 = Inr (2 * (6 div 3), 6 div 3)"
    and "(\<Union>rank\<in>{..<3}. slice_indices (projr (partition_slice 6 3 rank))) = {0..<6}"
    and "slice_indices (projr (partition_slice 6 3 0)) \<inter> slice_indices (projr (partition_slice 6 3 1)) = {}"
    by blast+
  moreover from partition_exact_cover [OF a, of 7] n
  have "partition_slice 7 3 1 = Inl Assertion_Failed" by blast
  ultimately show ?thesis by simp
qed

section \<open>One step of one worker\<close>

text \<open>The force on a body depends on the positions of the two bodies and on the mass of the second.\<close>

lemma kernel_frame:
  assumes "x a' = x a" "y a' = y a" "x b' = x b" "y b' = y b" "mass b' = mass b"
  shows "calculate_newton_gravity_acceleration s2 a' b' = calculate_newton_gravity_acceleration s2 a b"
  using assms by (simp add: calculate_newton_gravity_acceleration_def)

lemma inner_loop_fold:
  "inner_loop s2 bs i js acc =
     fold (\<lambda>j sums.
             (fst sums + fst (calculate_newton_gravity_acceleration s2 (bs ! i) (bs ! j)),
              snd sums + snd (calculate_newton_gravity_acceleration s2 (bs ! i) (bs ! j))))
          (filter (\<lambda>j. j \<noteq> i) js) acc"
  by (induction js arbitrary: acc) auto

lemma inner_loop_total:
  "inner_loop s2 bs i [0..<length bs] (0, 0) = total_acceleration s2 bs i"
  by (simp add: inner_loop_fold total_acceleration_def)

lemma total_acceleration_frame:
  assumes "length bs' = length bs"
    and "\<forall>j<length bs. x (bs' ! j) = x (bs ! j) \<and> y (bs' ! j) = y (bs ! j) \<and> mass (bs' ! j) = mass (bs ! j)"
    and "i < length bs"
  shows "total_acceleration s2 bs' i = total_acceleration s2 bs i"
proof -
  have "calculate_newton_gravity_acceleration s2 (bs' ! i) (bs' ! j)
      = calculate_newton_gravity_acceleration s2 (bs ! i) (bs ! j)" if "j < length bs" for j
    using assms(2,3) that by (intro kernel_frame) simp_all
  then show ?thesis
    unfolding total_acceleration_def assms(1)
    by (intro fold_cong) auto
qed

text \<open>What the loop over the slice stores for body \<open>i\<close>, from the array \<open>bs0\<close> of the start of the step.\<close>

lemma force_loop_char:
  assumes "distinct is" and "\<forall>i\<in>set is. i < length bs" and "p + length is \<le> length loc"
    and "length bs0 = length bs"
    and "\<forall>j<length bs. x (bs ! j) = x (bs0 ! j) \<and> y (bs ! j) = y (bs0 ! j) \<and> mass (bs ! j) = mass (bs0 ! j)"
  shows "\<exists>bs' loc'.
      force_loop s2 (length bs0) is (bs, loc, p) = (bs', loc', p + length is) \<and>
      length bs' = length bs \<and> length loc' = length loc \<and>
      (\<forall>i<length bs. bs' ! i =
          (if i \<in> set is
           then (bs ! i)\<lparr>ax := fst (total_acceleration s2 bs0 i), ay := snd (total_acceleration s2 bs0 i)\<rparr>
           else bs ! i)) \<and>
      (\<forall>k<length is. loc' ! (p + k) =
          (bs ! (is ! k))\<lparr>ax := fst (total_acceleration s2 bs0 (is ! k)),
                          ay := snd (total_acceleration s2 bs0 (is ! k))\<rparr>) \<and>
      (\<forall>q<p. loc' ! q = loc ! q)"
  using assms
proof (induction "is" arbitrary: bs loc p)
  case Nil
  then show ?case by simp
next
  case (Cons i "is")
  define fb where "fb = (bs ! i)\<lparr>ax := fst (total_acceleration s2 bs0 i), ay := snd (total_acceleration s2 bs0 i)\<rparr>"
  have i: "i < length bs" "i \<notin> set is" "distinct is" using Cons.prems by auto
  have p: "p < length loc" using Cons.prems(3) by simp
  have "total_acceleration s2 bs i = total_acceleration s2 bs0 i"
    using Cons.prems(4,5) i(1) by (intro total_acceleration_frame) simp_all
  then have inner: "inner_loop s2 bs i [0..<length bs0] (0, 0) = total_acceleration s2 bs0 i"
    using inner_loop_total [of s2 bs i] Cons.prems(4) by simp
  have unfold: "force_loop s2 (length bs0) (i # is) (bs, loc, p)
      = force_loop s2 (length bs0) is (bs[i := fb], loc[p := fb], p + 1)"
    by (simp add: inner fb_def Let_def)
  have frame: "\<forall>j<length (bs[i := fb]). x (bs[i := fb] ! j) = x (bs0 ! j) \<and>
      y (bs[i := fb] ! j) = y (bs0 ! j) \<and> mass (bs[i := fb] ! j) = mass (bs0 ! j)"
  proof (intro allI impI)
    fix j assume "j < length (bs[i := fb])"
    then have j: "j < length bs" by simp
    show "x (bs[i := fb] ! j) = x (bs0 ! j) \<and>
      y (bs[i := fb] ! j) = y (bs0 ! j) \<and> mass (bs[i := fb] ! j) = mass (bs0 ! j)"
      using Cons.prems(5) j i(1) by (cases "j = i") (simp_all add: fb_def)
  qed
  have "\<exists>bs' loc'.
      force_loop s2 (length bs0) is (bs[i := fb], loc[p := fb], p + 1) = (bs', loc', p + 1 + length is) \<and>
      length bs' = length (bs[i := fb]) \<and> length loc' = length (loc[p := fb]) \<and>
      (\<forall>j<length (bs[i := fb]). bs' ! j =
          (if j \<in> set is
           then (bs[i := fb] ! j)\<lparr>ax := fst (total_acceleration s2 bs0 j), ay := snd (total_acceleration s2 bs0 j)\<rparr>
           else bs[i := fb] ! j)) \<and>
      (\<forall>k<length is. loc' ! (p + 1 + k) =
          (bs[i := fb] ! (is ! k))\<lparr>ax := fst (total_acceleration s2 bs0 (is ! k)),
                          ay := snd (total_acceleration s2 bs0 (is ! k))\<rparr>) \<and>
      (\<forall>q<p + 1. loc' ! q = (loc[p := fb]) ! q)"
    using Cons.prems i frame by (intro Cons.IH) simp_all
  then obtain bs' loc' where
    run: "force_loop s2 (length bs0) is (bs[i := fb], loc[p := fb], p + 1) = (bs', loc', p + 1 + length is)"
    and len: "length bs' = length bs" "length loc' = length loc"
    and arr: "\<And>j. j < length bs \<Longrightarrow> bs' ! j =
          (if j \<in> set is
           then (bs[i := fb] ! j)\<lparr>ax := fst (total_acceleration s2 bs0 j), ay := snd (total_acceleration s2 bs0 j)\<rparr>
           else bs[i := fb] ! j)"
    and buf: "\<And>k. k < length is \<Longrightarrow> loc' ! (p + 1 + k) =
          (bs[i := fb] ! (is ! k))\<lparr>ax := fst (total_acceleration s2 bs0 (is ! k)),
                          ay := snd (total_acceleration s2 bs0 (is ! k))\<rparr>"
    and low: "\<And>q. q < p + 1 \<Longrightarrow> loc' ! q = (loc[p := fb]) ! q"
    by auto
  have arr': "bs' ! j =
      (if j \<in> set (i # is)
       then (bs ! j)\<lparr>ax := fst (total_acceleration s2 bs0 j), ay := snd (total_acceleration s2 bs0 j)\<rparr>
       else bs ! j)" if "j < length bs" for j
  proof (cases "j = i")
    case True
    then show ?thesis using arr [OF that] i by (simp add: fb_def)
  next
    case False
    then show ?thesis using arr [OF that] by simp
  qed
  have buf': "loc' ! (p + k) =
      (bs ! ((i # is) ! k))\<lparr>ax := fst (total_acceleration s2 bs0 ((i # is) ! k)),
                              ay := snd (total_acceleration s2 bs0 ((i # is) ! k))\<rparr>"
    if "k < length (i # is)" for k
  proof (cases k)
    case 0
    then show ?thesis using low [of p] p by (simp add: fb_def)
  next
    case (Suc k')
    then have k': "k' < length is" using that by simp
    then have "is ! k' \<noteq> i" using i(2) by (metis nth_mem)
    then show ?thesis using buf [OF k'] Suc by simp
  qed
  have low': "loc' ! q = loc ! q" if "q < p" for q
    using low [of q] that by simp
  show ?case
    unfolding unfold run
    using len arr' buf' low' by (intro exI [of _ bs'] exI [of _ loc']) simp
qed

text \<open>The second loop applies the integrator to each body of the buffer.\<close>

lemma integrate_loop_append:
  "integrate_loop dt (is @ js) loc = integrate_loop dt js (integrate_loop dt is loc)"
  by (induction "is" arbitrary: loc) simp_all

lemma integrate_loop_upt:
  "n \<le> length loc \<Longrightarrow>
   integrate_loop dt [0..<n] loc = map (\<lambda>b. integrate b dt) (take n loc) @ drop n loc"
proof (induction n)
  case 0
  then show ?case by simp
next
  case (Suc n)
  then have n: "n < length loc" by simp
  have "integrate_loop dt [0..<Suc n] loc
      = (map (\<lambda>b. integrate b dt) (take n loc) @ drop n loc)
          [n := integrate ((map (\<lambda>b. integrate b dt) (take n loc) @ drop n loc) ! n) dt]"
    using Suc by (simp add: integrate_loop_append)
  also have "(map (\<lambda>b. integrate b dt) (take n loc) @ drop n loc) ! n = loc ! n"
    using n by (simp add: nth_append)
  also have "(map (\<lambda>b. integrate b dt) (take n loc) @ drop n loc) [n := integrate (loc ! n) dt]
      = map (\<lambda>b. integrate b dt) (take n loc) @ (integrate (loc ! n) dt # drop (Suc n) loc)"
    using n by (simp add: list_update_append Cons_nth_drop_Suc [symmetric])
  also have "\<dots> = map (\<lambda>b. integrate b dt) (take (Suc n) loc) @ drop (Suc n) loc"
    using n by (simp add: take_Suc_conv_app_nth)
  finally show ?case .
qed

lemma integrate_loop_all:
  "integrate_loop dt [0..<length loc] loc = map (\<lambda>b. integrate b dt) loc"
  using integrate_loop_upt [of "length loc" loc dt] by simp

text \<open>The two loops of a worker, body by body.\<close>

lemma worker_update_char:
  assumes "rank * bodies_per_process + bodies_per_process \<le> length bodies"
    and "length local_bodies = bodies_per_process"
  shows "\<forall>k<bodies_per_process.
       fst (worker_update s2 delta_time (length bodies) bodies_per_process rank bodies local_bodies)
           ! (rank * bodies_per_process + k)
         = stored_body s2 bodies (rank * bodies_per_process + k) \<and>
       snd (worker_update s2 delta_time (length bodies) bodies_per_process rank bodies local_bodies) ! k
         = integrate (stored_body s2 bodies (rank * bodies_per_process + k)) delta_time"
proof -
  define s where "s = rank * bodies_per_process"
  define slice where "slice = [s..<s + bodies_per_process]"
  have sl: "distinct slice" "\<forall>i\<in>set slice. i < length bodies" "length slice = bodies_per_process"
    using assms(1) by (auto simp: slice_def s_def)
  obtain bs' loc' where
    run: "force_loop s2 (length bodies) slice (bodies, local_bodies, 0) = (bs', loc', 0 + length slice)"
    and len: "length bs' = length bodies" "length loc' = length local_bodies"
    and arr: "\<And>i. i < length bodies \<Longrightarrow> bs' ! i =
          (if i \<in> set slice
           then (bodies ! i)\<lparr>ax := fst (total_acceleration s2 bodies i), ay := snd (total_acceleration s2 bodies i)\<rparr>
           else bodies ! i)"
    and buf: "\<And>k. k < length slice \<Longrightarrow> loc' ! (0 + k) =
          (bodies ! (slice ! k))\<lparr>ax := fst (total_acceleration s2 bodies (slice ! k)),
                          ay := snd (total_acceleration s2 bodies (slice ! k))\<rparr>"
    using force_loop_char [of slice bodies 0 local_bodies bodies s2] sl assms(2) by auto
  have w: "worker_update s2 delta_time (length bodies) bodies_per_process rank bodies local_bodies
      = (bs', map (\<lambda>b. integrate b delta_time) loc')"
    using run len assms(2) integrate_loop_all [of delta_time loc']
    by (simp add: worker_update_def Let_def s_def [symmetric] slice_def [symmetric])
  have "fst (worker_update s2 delta_time (length bodies) bodies_per_process rank bodies local_bodies) ! (s + k)
         = stored_body s2 bodies (s + k) \<and>
       snd (worker_update s2 delta_time (length bodies) bodies_per_process rank bodies local_bodies) ! k
         = integrate (stored_body s2 bodies (s + k)) delta_time"
    if k: "k < bodies_per_process" for k
  proof -
    have in_slice: "s + k \<in> set slice" "s + k < length bodies" "slice ! k = s + k"
      using k assms(1) by (auto simp: slice_def s_def)
    show ?thesis
      using arr [OF in_slice(2)] in_slice buf [of k] k sl(3) len assms(2)
      by (simp add: w stored_body_def)
  qed
  then show ?thesis unfolding s_def by blast
qed

text \<open>
  Claim C3, as amended. In a step, the worker of rank \<open>rank\<close> goes through the indices
  of its slice, \<open>rank * bodies_per_process\<close> up to
  \<open>rank * bodies_per_process + bodies_per_process\<close>. For each owned body it stores, in
  its copy of the global array, the sum of the Force Kernel over every other body of the
  whole array (the body itself is skipped), taken at the positions that the array has at
  the start of the step, and copies the body to its slice buffer. The Integrator is
  applied afterwards, in a second loop, to the bodies of the slice buffer: the owned
  bodies of the array keep their positions and velocities until the exchange, and no
  sum of the step sees a body that the step has moved.
\<close>

theorem worker_step_sums_then_integrates:
  assumes "rank * bodies_per_process + bodies_per_process \<le> length bodies"
    and "length local_bodies = bodies_per_process"
  shows "\<forall>k<bodies_per_process.
       fst (worker_update s2 delta_time (length bodies) bodies_per_process rank bodies local_bodies)
           ! (rank * bodies_per_process + k)
         = (bodies ! (rank * bodies_per_process + k))
             \<lparr>ax := fst (total_acceleration s2 bodies (rank * bodies_per_process + k)),
              ay := snd (total_acceleration s2 bodies (rank * bodies_per_process + k))\<rparr> \<and>
       snd (worker_update s2 delta_time (length bodies) bodies_per_process rank bodies local_bodies) ! k
         = integrate
             ((bodies ! (rank * bodies_per_process + k))
                \<lparr>ax := fst (total_acceleration s2 bodies (rank * bodies_per_process + k)),
                 ay := snd (total_acceleration s2 bodies (rank * bodies_per_process + k))\<rparr>)
             delta_time"
  using worker_update_char [OF assms] unfolding stored_body_def .

text \<open>
  Two bodies of mass 1 at rest, at (0, 0) and (2, 0), no softening, \<open>delta_time = 4\<close>,
  one worker that owns both. The forces are 1/4 towards each other.
\<close>

lemma two_body_kernel:
  "calculate_newton_gravity_acceleration 0
     \<lparr>x = 0, y = 0, ax = a, ay = b, vx = c, vy = d, mass = 1\<rparr>
     \<lparr>x = two, y = 0, ax = a', ay = b', vx = c', vy = d', mass = 1\<rparr>
   = (Finite False 8388608 (- 25), 0)"
  "calculate_newton_gravity_acceleration 0
     \<lparr>x = two, y = 0, ax = a', ay = b', vx = c', vy = d', mass = 1\<rparr>
     \<lparr>x = 0, y = 0, ax = a, ay = b, vx = c, vy = d, mass = 1\<rparr>
   = (Finite True 8388608 (- 25), 0)"
  "calculate_newton_gravity_acceleration 0
     \<lparr>x = two, y = 0, ax = a', ay = b', vx = c', vy = d', mass = 1\<rparr>
     \<lparr>x = Finite False 8388608 (- 21), y = 0, ax = a, ay = b, vx = c, vy = d, mass = 1\<rparr>
   = (Finite False 8388608 (- 25), 0)"
  by (simp_all add: calculate_newton_gravity_acceleration_def Let_def f32_eval)

lemma two_body_integrate:
  "integrate \<lparr>x = 0, y = 0, ax = Finite False 8388608 (- 25), ay = 0, vx = 0, vy = 0, mass = 1\<rparr>
     (Finite False 8388608 (- 21))
   = \<lparr>x = Finite False 8388608 (- 21), y = 0, ax = Finite False 8388608 (- 25), ay = 0,
      vx = 1, vy = 0, mass = 1\<rparr>"
  "integrate \<lparr>x = two, y = 0, ax = Finite True 8388608 (- 25), ay = 0, vx = 0, vy = 0, mass = 1\<rparr>
     (Finite False 8388608 (- 21))
   = \<lparr>x = Finite True 8388608 (- 22), y = 0, ax = Finite True 8388608 (- 25), ay = 0,
      vx = Finite True 8388608 (- 23), vy = 0, mass = 1\<rparr>"
  "integrate \<lparr>x = two, y = 0, ax = Finite False 8388608 (- 25), ay = 0, vx = 0, vy = 0, mass = 1\<rparr>
     (Finite False 8388608 (- 21))
   = \<lparr>x = Finite False 12582912 (- 21), y = 0, ax = Finite False 8388608 (- 25), ay = 0,
      vx = 1, vy = 0, mass = 1\<rparr>"
  by (simp_all add: integrate_def Let_def f32_eval)

lemma zero_plus_values:
  "(0::f32) + Finite False 8388608 (- 25) = Finite False 8388608 (- 25)"
  "(0::f32) + Finite True 8388608 (- 25) = Finite True 8388608 (- 25)"
  "(0::f32) + 0 = 0"
  by (simp_all add: f32_eval)

theorem worker_step_sums_then_integrates_witness:
  "0 * 2 + 2 \<le> length [\<lparr>x = 0, y = 0, ax = 0, ay = 0, vx = 0, vy = 0, mass = 1\<rparr>,
                         \<lparr>x = two, y = 0, ax = 0, ay = 0, vx = 0, vy = 0, mass = 1\<rparr>] \<and>
   length [\<lparr>x = NaN, y = NaN, ax = NaN, ay = NaN, vx = NaN, vy = NaN, mass = NaN\<rparr>,
           \<lparr>x = NaN, y = NaN, ax = NaN, ay = NaN, vx = NaN, vy = NaN, mass = NaN\<rparr>] = 2 \<and>
   fst (worker_update 0 (Finite False (2 ^ 23) (- 21)) 2 2 0
          [\<lparr>x = 0, y = 0, ax = 0, ay = 0, vx = 0, vy = 0, mass = 1\<rparr>,
           \<lparr>x = two, y = 0, ax = 0, ay = 0, vx = 0, vy = 0, mass = 1\<rparr>]
          [\<lparr>x = NaN, y = NaN, ax = NaN, ay = NaN, vx = NaN, vy = NaN, mass = NaN\<rparr>,
           \<lparr>x = NaN, y = NaN, ax = NaN, ay = NaN, vx = NaN, vy = NaN, mass = NaN\<rparr>]) ! 1
     = \<lparr>x = two, y = 0, ax = Finite True (2 ^ 23) (- 25), ay = 0, vx = 0, vy = 0, mass = 1\<rparr> \<and>
   snd (worker_update 0 (Finite False (2 ^ 23) (- 21)) 2 2 0
          [\<lparr>x = 0, y = 0, ax = 0, ay = 0, vx = 0, vy = 0, mass = 1\<rparr>,
           \<lparr>x = two, y = 0, ax = 0, ay = 0, vx = 0, vy = 0, mass = 1\<rparr>]
          [\<lparr>x = NaN, y = NaN, ax = NaN, ay = NaN, vx = NaN, vy = NaN, mass = NaN\<rparr>,
           \<lparr>x = NaN, y = NaN, ax = NaN, ay = NaN, vx = NaN, vy = NaN, mass = NaN\<rparr>]) ! 1
     = \<lparr>x = Finite True (2 ^ 23) (- 22), y = 0, ax = Finite True (2 ^ 23) (- 25), ay = 0,
        vx = Finite True (2 ^ 23) (- 23), vy = 0, mass = 1\<rparr>"
proof -
  define b0 where "b0 = \<lparr>x = 0, y = 0, ax = 0, ay = 0, vx = 0, vy = 0, mass = (1::f32)\<rparr>"
  define b1 where "b1 = \<lparr>x = two, y = 0, ax = 0, ay = 0, vx = 0, vy = 0, mass = (1::f32)\<rparr>"
  define u where "u = \<lparr>x = NaN, y = NaN, ax = NaN, ay = NaN, vx = NaN, vy = NaN, mass = NaN\<rparr>"
  define dt where "dt = Finite False (2 ^ 23) (- 21)"
  have h1: "0 * 2 + 2 \<le> length [b0, b1]" by simp
  have h2: "length [u, u] = 2" by simp
  have two: "length [b0, b1] = 2" by simp
  have t: "total_acceleration 0 [b0, b1] (Suc 0) = (Finite True (2 ^ 23) (- 25), 0)"
    by (simp add: total_acceleration_def upt_rec b0_def b1_def two_body_kernel zero_plus_values)
  have i: "integrate (b1\<lparr>ax := Finite True (2 ^ 23) (- 25), ay := 0\<rparr>) dt
      = \<lparr>x = Finite True (2 ^ 23) (- 22), y = 0, ax = Finite True (2 ^ 23) (- 25), ay = 0,
         vx = Finite True (2 ^ 23) (- 23), vy = 0, mass = 1\<rparr>"
    by (simp add: b1_def dt_def two_body_integrate)
  from worker_step_sums_then_integrates [OF h1 h2, of 0 dt]
  have "fst (worker_update 0 dt (length [b0, b1]) 2 0 [b0, b1] [u, u]) ! (0 * 2 + 1)
      = ([b0, b1] ! (0 * 2 + 1))
          \<lparr>ax := fst (total_acceleration 0 [b0, b1] (0 * 2 + 1)),
           ay := snd (total_acceleration 0 [b0, b1] (0 * 2 + 1))\<rparr> \<and>
    snd (worker_update 0 dt (length [b0, b1]) 2 0 [b0, b1] [u, u]) ! 1
      = integrate (([b0, b1] ! (0 * 2 + 1))
          \<lparr>ax := fst (total_acceleration 0 [b0, b1] (0 * 2 + 1)),
           ay := snd (total_acceleration 0 [b0, b1] (0 * 2 + 1))\<rparr>) dt"
    by simp
  then have "fst (worker_update 0 dt 2 2 0 [b0, b1] [u, u]) ! 1
      = \<lparr>x = two, y = 0, ax = Finite True (2 ^ 23) (- 25), ay = 0, vx = 0, vy = 0, mass = 1\<rparr> \<and>
    snd (worker_update 0 dt 2 2 0 [b0, b1] [u, u]) ! 1
      = \<lparr>x = Finite True (2 ^ 23) (- 22), y = 0, ax = Finite True (2 ^ 23) (- 25), ay = 0,
         vx = Finite True (2 ^ 23) (- 23), vy = 0, mass = 1\<rparr>"
    unfolding two by (simp add: t i) (simp add: b1_def dt_def two_body_integrate)
  then show ?thesis using h1 h2 unfolding b0_def b1_def u_def dt_def by blast
qed

text \<open>
  Claim C3 as stated fails: the Integrator is not applied to an owned body before the
  next owned body has its sum. For the two bodies above the code gives the second body
  the acceleration -1/4, from the first body at (0, 0), and moves it to (-2, 0). With
  the Integrator applied to the first body before the loop goes on, the first body is
  at (4, 0) when the second has its sum: the acceleration is +1/4 and the second body
  moves to (6, 0).
\<close>

theorem worker_step_not_body_by_body:
  "snd (worker_update 0 (Finite False (2 ^ 23) (- 21)) 2 2 0
          [\<lparr>x = 0, y = 0, ax = 0, ay = 0, vx = 0, vy = 0, mass = 1\<rparr>,
           \<lparr>x = two, y = 0, ax = 0, ay = 0, vx = 0, vy = 0, mass = 1\<rparr>]
          [\<lparr>x = NaN, y = NaN, ax = NaN, ay = NaN, vx = NaN, vy = NaN, mass = NaN\<rparr>,
           \<lparr>x = NaN, y = NaN, ax = NaN, ay = NaN, vx = NaN, vy = NaN, mass = NaN\<rparr>]) ! 1
     = \<lparr>x = Finite True (2 ^ 23) (- 22), y = 0, ax = Finite True (2 ^ 23) (- 25), ay = 0,
        vx = Finite True (2 ^ 23) (- 23), vy = 0, mass = 1\<rparr> \<and>
   in_place_loop 0 (Finite False (2 ^ 23) (- 21)) 2 [0..<2]
          [\<lparr>x = 0, y = 0, ax = 0, ay = 0, vx = 0, vy = 0, mass = 1\<rparr>,
           \<lparr>x = two, y = 0, ax = 0, ay = 0, vx = 0, vy = 0, mass = 1\<rparr>] ! 1
     = \<lparr>x = Finite False 12582912 (- 21), y = 0, ax = Finite False (2 ^ 23) (- 25), ay = 0,
        vx = 1, vy = 0, mass = 1\<rparr>"
proof -
  have code: "worker_update 0 (Finite False (2 ^ 23) (- 21)) 2 2 0
          [\<lparr>x = 0, y = 0, ax = 0, ay = 0, vx = 0, vy = 0, mass = 1\<rparr>,
           \<lparr>x = two, y = 0, ax = 0, ay = 0, vx = 0, vy = 0, mass = 1\<rparr>]
          [\<lparr>x = NaN, y = NaN, ax = NaN, ay = NaN, vx = NaN, vy = NaN, mass = NaN\<rparr>,
           \<lparr>x = NaN, y = NaN, ax = NaN, ay = NaN, vx = NaN, vy = NaN, mass = NaN\<rparr>]
      = ([\<lparr>x = 0, y = 0, ax = Finite False (2 ^ 23) (- 25), ay = 0, vx = 0, vy = 0, mass = 1\<rparr>,
          \<lparr>x = two, y = 0, ax = Finite True (2 ^ 23) (- 25), ay = 0, vx = 0, vy = 0, mass = 1\<rparr>],
         [\<lparr>x = Finite False (2 ^ 23) (- 21), y = 0, ax = Finite False (2 ^ 23) (- 25), ay = 0,
            vx = 1, vy = 0, mass = 1\<rparr>,
          \<lparr>x = Finite True (2 ^ 23) (- 22), y = 0, ax = Finite True (2 ^ 23) (- 25), ay = 0,
            vx = Finite True (2 ^ 23) (- 23), vy = 0, mass = 1\<rparr>])"
    by (simp add: worker_update_def Let_def upt_rec two_body_kernel zero_plus_values two_body_integrate)
  have spec: "in_place_loop 0 (Finite False (2 ^ 23) (- 21)) 2 [0..<2]
          [\<lparr>x = 0, y = 0, ax = 0, ay = 0, vx = 0, vy = 0, mass = 1\<rparr>,
           \<lparr>x = two, y = 0, ax = 0, ay = 0, vx = 0, vy = 0, mass = 1\<rparr>]
      = [\<lparr>x = Finite False (2 ^ 23) (- 21), y = 0, ax = Finite False (2 ^ 23) (- 25), ay = 0,
            vx = 1, vy = 0, mass = 1\<rparr>,
         \<lparr>x = Finite False 12582912 (- 21), y = 0, ax = Finite False (2 ^ 23) (- 25), ay = 0,
            vx = 1, vy = 0, mass = 1\<rparr>]"
    by (simp add: Let_def upt_rec two_body_kernel zero_plus_values two_body_integrate)
  show ?thesis unfolding code spec by simp
qed

section \<open>The steps of the run\<close>

lemma length_force_loop:
  "length (fst (force_loop s2 n is st)) = length (fst st) \<and>
   length (fst (snd (force_loop s2 n is st))) = length (fst (snd st))"
proof (induction "is" arbitrary: st)
  case Nil
  then show ?case by simp
next
  case (Cons i "is")
  obtain bs loc p where st: "st = (bs, loc, p)" by (cases st) auto
  show ?case unfolding st using Cons [of "(bs[i := (bs ! i)\<lparr>ax := fst (inner_loop s2 bs i [0..<n] (0, 0)),
      ay := snd (inner_loop s2 bs i [0..<n] (0, 0))\<rparr>], loc[p := (bs ! i)\<lparr>ax := fst (inner_loop s2 bs i [0..<n] (0, 0)),
      ay := snd (inner_loop s2 bs i [0..<n] (0, 0))\<rparr>], p + 1)"]
    by (simp add: Let_def)
qed

lemma length_integrate_loop: "length (integrate_loop dt is loc) = length loc"
  by (induction "is" arbitrary: loc) simp_all

lemma length_worker_update:
  "length (snd (worker_update s2 dt n bpp r bodies loc)) = length loc"
  using length_force_loop [of s2 n "[r * bpp..<r * bpp + bpp]" "(bodies, loc, 0)"]
  by (simp add: worker_update_def Let_def length_integrate_loop)

lemma worker_update_buffer:
  assumes "r * bpp + bpp \<le> length bodies" and "length loc = bpp"
  shows "snd (worker_update s2 dt (length bodies) bpp r bodies loc)
      = map (\<lambda>k. advance_body s2 dt bodies (r * bpp + k)) [0..<bpp]"
proof (rule nth_equalityI)
  show "length (snd (worker_update s2 dt (length bodies) bpp r bodies loc))
      = length (map (\<lambda>k. advance_body s2 dt bodies (r * bpp + k)) [0..<bpp])"
    using assms(2) by (simp add: length_worker_update)
next
  fix k assume "k < length (snd (worker_update s2 dt (length bodies) bpp r bodies loc))"
  then have k: "k < bpp" using assms(2) by (simp add: length_worker_update)
  from worker_update_char [OF assms, of s2 dt] k
  have "snd (worker_update s2 dt (length bodies) bpp r bodies loc) ! k
      = integrate (stored_body s2 bodies (r * bpp + k)) dt"
    by blast
  then show "snd (worker_update s2 dt (length bodies) bpp r bodies loc) ! k
      = map (\<lambda>k. advance_body s2 dt bodies (r * bpp + k)) [0..<bpp] ! k"
    using k by (simp add: advance_body_def)
qed

lemma concat_blocks:
  "concat (map (\<lambda>r. map (\<lambda>k. f (r * b + k)) [0..<b]) [0..<w]) = map f [0..<w * b]"
proof (induction w)
  case 0
  then show ?case by simp
next
  case (Suc w)
  have e: "Suc w * b = w * b + b" by simp
  have "[0..<w * b + b] = [0..<w * b] @ [w * b..<w * b + b]"
    by (rule upt_add_eq_append) simp
  moreover have "map (\<lambda>k. f (w * b + k)) [0..<b] = map f [w * b..<w * b + b]"
    by (rule nth_equalityI) simp_all
  ultimately have "map f [0..<Suc w * b] = map f [0..<w * b] @ map (\<lambda>k. f (w * b + k)) [0..<b]"
    unfolding e by simp
  then show ?case using Suc by simp
qed

text \<open>
  A step, when the slices cover the array: every body is replaced by its body advanced
  from the array of the start of the step, whatever the slice buffers held and however
  many workers share the array.
\<close>

lemma step_char:
  assumes "length bodies = w * bpp" and "length locals = w" and "\<forall>r<w. length (locals ! r) = bpp"
  shows "step s2 dt (w * bpp) w bpp (bodies, locals)
      = (map (advance_body s2 dt bodies) [0..<w * bpp],
         map (\<lambda>r. map (\<lambda>k. advance_body s2 dt bodies (r * bpp + k)) [0..<bpp]) [0..<w])"
proof -
  have "snd (worker_update s2 dt (length bodies) bpp r bodies (locals ! r))
      = map (\<lambda>k. advance_body s2 dt bodies (r * bpp + k)) [0..<bpp]" if "r < w" for r
  proof -
    have "r * bpp + bpp = Suc r * bpp" by simp
    also have "\<dots> \<le> w * bpp" using that by (intro mult_le_mono1) simp
    finally have "r * bpp + bpp \<le> length bodies" using assms(1) by simp
    then show ?thesis using assms(3) that by (intro worker_update_buffer) simp_all
  qed
  then have m: "map (\<lambda>r. snd (worker_update s2 dt (length bodies) bpp r bodies (locals ! r))) [0..<w]
      = map (\<lambda>r. map (\<lambda>k. advance_body s2 dt bodies (r * bpp + k)) [0..<bpp]) [0..<w]"
    by (intro map_cong) simp_all
  have c: "concat (map (\<lambda>r. map (\<lambda>k. advance_body s2 dt bodies (r * bpp + k)) [0..<bpp]) [0..<w])
      = map (advance_body s2 dt bodies) [0..<length bodies]"
    using concat_blocks [of "advance_body s2 dt bodies" bpp w] assms(1) by simp
  have "step s2 dt (length bodies) w bpp (bodies, locals)
      = (map (advance_body s2 dt bodies) [0..<length bodies],
         map (\<lambda>r. map (\<lambda>k. advance_body s2 dt bodies (r * bpp + k)) [0..<bpp]) [0..<w])"
    by (simp only: step_def allgather_def Let_def fst_conv snd_conv m c)
  then show ?thesis unfolding assms(1) .
qed

lemma step_lengths:
  assumes "length bodies = w * bpp" and "length locals = w" and "\<forall>r<w. length (locals ! r) = bpp"
  shows "length (fst (step s2 dt (w * bpp) w bpp (bodies, locals))) = w * bpp"
    and "length (snd (step s2 dt (w * bpp) w bpp (bodies, locals))) = w"
    and "\<forall>r<w. length (snd (step s2 dt (w * bpp) w bpp (bodies, locals)) ! r) = bpp"
  by (simp_all add: step_char [OF assms])

lemma funpow_step_lengths:
  assumes "length bodies = w * bpp" and "length locals = w" and "\<forall>r<w. length (locals ! r) = bpp"
  shows "length (fst ((step s2 dt (w * bpp) w bpp ^^ k) (bodies, locals))) = w * bpp \<and>
    length (snd ((step s2 dt (w * bpp) w bpp ^^ k) (bodies, locals))) = w \<and>
    (\<forall>r<w. length (snd ((step s2 dt (w * bpp) w bpp ^^ k) (bodies, locals)) ! r) = bpp)"
proof (induction k)
  case 0
  then show ?case using assms by simp
next
  case (Suc k)
  obtain bs ls where st: "(step s2 dt (w * bpp) w bpp ^^ k) (bodies, locals) = (bs, ls)"
    by (cases "(step s2 dt (w * bpp) w bpp ^^ k) (bodies, locals)") auto
  with Suc have l: "length bs = w * bpp" "length ls = w" "\<forall>r<w. length (ls ! r) = bpp" by simp_all
  show ?case
    using step_lengths [OF l, of s2 dt] by (simp add: st)
qed

lemma length_bodies_after:
  assumes "length bodies = w * bpp" and "length locals = w" and "\<forall>r<w. length (locals ! r) = bpp"
  shows "length (bodies_after s2 dt (w * bpp) w bpp k (bodies, locals)) = w * bpp"
  using funpow_step_lengths [OF assms] by (simp add: bodies_after_def)

lemma bodies_after_Suc:
  assumes "length bodies = w * bpp" and "length locals = w" and "\<forall>r<w. length (locals ! r) = bpp"
  shows "bodies_after s2 dt (w * bpp) w bpp (Suc k) (bodies, locals)
      = map (advance_body s2 dt (bodies_after s2 dt (w * bpp) w bpp k (bodies, locals))) [0..<w * bpp]"
proof -
  obtain bs ls where st: "(step s2 dt (w * bpp) w bpp ^^ k) (bodies, locals) = (bs, ls)"
    by (cases "(step s2 dt (w * bpp) w bpp ^^ k) (bodies, locals)") auto
  with funpow_step_lengths [OF assms, of k s2 dt]
  have l: "length bs = w * bpp" "length ls = w" "\<forall>r<w. length (ls ! r) = bpp" by simp_all
  show ?thesis
    using step_char [OF l, of s2 dt] by (simp add: bodies_after_def st)
qed

lemma bodies_after_0: "bodies_after s2 dt n w bpp 0 st = fst st"
  by (simp add: bodies_after_def)

lemma bodies_after_step:
  "bodies_after s2 dt n w bpp (Suc k) st = bodies_after s2 dt n w bpp k (step s2 dt n w bpp st)"
  by (simp add: bodies_after_def funpow_swap1)

text \<open>The leader's record of a step, and all records of a run.\<close>

lemma record_loop_map:
  "record_loop bs is acc = acc @ concat (map (\<lambda>i. [ax (bs ! i), ay (bs ! i)]) is)"
  by (induction "is" arbitrary: acc) simp_all

lemma record_loop_all:
  "record_loop bs [0..<length bs] acc = acc @ concat (map (\<lambda>b. [ax b, ay b]) bs)"
proof -
  have "map (\<lambda>i. [ax (bs ! i), ay (bs ! i)]) [0..<length bs] = map (\<lambda>b. [ax b, ay b]) (map ((!) bs) [0..<length bs])"
    by (simp add: comp_def)
  then show ?thesis by (simp add: record_loop_map map_nth)
qed

lemma simulate_char:
  assumes "length bodies = w * bpp" and "length locals = w" and "\<forall>r<w. length (locals ! r) = bpp"
  shows "snd (snd (simulate s2 dt (w * bpp) w bpp k (bodies, locals, acc)))
      = acc @ concat (map (\<lambda>j. concat (map (\<lambda>b. [ax b, ay b])
                                (bodies_after s2 dt (w * bpp) w bpp (Suc j) (bodies, locals))))
                       [0..<k])"
  using assms
proof (induction k arbitrary: bodies locals acc)
  case 0
  then show ?case by simp
next
  case (Suc k)
  define st where "st = step s2 dt (w * bpp) w bpp (bodies, locals)"
  have l: "length (fst st) = w * bpp" "length (snd st) = w" "\<forall>r<w. length (snd st ! r) = bpp"
    using step_lengths [OF Suc.prems, of s2 dt] by (simp_all add: st_def)
  have first: "bodies_after s2 dt (w * bpp) w bpp (Suc 0) (bodies, locals) = fst st"
    by (simp add: bodies_after_def st_def)
  have later: "bodies_after s2 dt (w * bpp) w bpp (Suc (Suc j)) (bodies, locals)
      = bodies_after s2 dt (w * bpp) w bpp (Suc j) (fst st, snd st)" for j
    using bodies_after_step [of s2 dt "w * bpp" w bpp "Suc j" "(bodies, locals)"] by (simp add: st_def)
  have "snd (snd (simulate s2 dt (w * bpp) w bpp (Suc k) (bodies, locals, acc)))
      = snd (snd (simulate s2 dt (w * bpp) w bpp k
          (fst st, snd st, record_loop (fst st) [0..<w * bpp] acc)))"
    by (simp add: st_def Let_def)
  also have "\<dots> = record_loop (fst st) [0..<w * bpp] acc @
      concat (map (\<lambda>j. concat (map (\<lambda>b. [ax b, ay b])
                 (bodies_after s2 dt (w * bpp) w bpp (Suc j) (fst st, snd st)))) [0..<k])"
    using l by (intro Suc.IH) simp_all
  also have "record_loop (fst st) [0..<w * bpp] acc = acc @ concat (map (\<lambda>b. [ax b, ay b]) (fst st))"
    using record_loop_all [of "fst st" acc] l(1) by simp
  finally show ?case
    by (simp add: upt_conv_Cons [of 0 "Suc k"] map_Suc_upt [symmetric] first later comp_def del: upt_Suc)
qed

text \<open>The loop that prints the trace pairs the entries up again.\<close>

lemma flat_nth:
  "j < length bs \<Longrightarrow>
   concat (map (\<lambda>b. [ax b, ay b]) bs) ! (2 * j) = ax (bs ! j) \<and>
   concat (map (\<lambda>b. [ax b, ay b]) bs) ! (2 * j + 1) = ay (bs ! j)"
proof (induction bs arbitrary: j)
  case Nil
  then show ?case by simp
next
  case (Cons b bs)
  show ?case
  proof (cases j)
    case 0
    then show ?thesis by simp
  next
    case (Suc i)
    then show ?thesis using Cons.IH [of i] Cons.prems by simp
  qed
qed

lemma print_loop_flat:
  "print_loop (concat (map (\<lambda>b. [ax b, ay b]) bs)) (2 * length bs) (2 * j)
     = map (\<lambda>b. Line_ff (ax b) (ay b)) (drop j bs)"
proof (induction "length bs - j" arbitrary: j)
  case 0
  then show ?case by (subst print_loop.simps) simp
next
  case (Suc d)
  then have j: "j < length bs" and d: "d = length bs - Suc j" by simp_all
  have "print_loop (concat (map (\<lambda>b. [ax b, ay b]) bs)) (2 * length bs) (2 * j)
      = Line_ff (ax (bs ! j)) (ay (bs ! j))
          # print_loop (concat (map (\<lambda>b. [ax b, ay b]) bs)) (2 * length bs) (2 * Suc j)"
    using j flat_nth [OF j] by (subst print_loop.simps) simp
  also have "\<dots> = Line_ff (ax (bs ! j)) (ay (bs ! j)) # map (\<lambda>b. Line_ff (ax b) (ay b)) (drop (Suc j) bs)"
    using Suc.hyps(1) [OF d] by simp
  also have "\<dots> = map (\<lambda>b. Line_ff (ax b) (ay b)) (drop j bs)"
    using j by (simp add: Cons_nth_drop_Suc [symmetric])
  finally show ?case .
qed

lemma print_loop_trace:
  "print_loop (concat (map (\<lambda>j. concat (map (\<lambda>b. [ax b, ay b]) (B j))) js))
       (2 * length (concat (map B js))) 0
     = concat (map (\<lambda>j. trace_of_step (B j)) js)"
proof -
  have "concat (map (\<lambda>j. concat (map (\<lambda>b. [ax b, ay b]) (B j))) js)
      = concat (map (\<lambda>b. [ax b, ay b]) (concat (map B js)))"
    by (induction js) simp_all
  moreover have "map (\<lambda>b. Line_ff (ax b) (ay b)) (concat (map B js))
      = concat (map (\<lambda>j. trace_of_step (B j)) js)"
    by (induction js) (simp_all add: trace_of_step_def)
  ultimately show ?thesis
    using print_loop_flat [of "concat (map B js)" 0] by simp
qed

section \<open>The paths of main\<close>

lemma length_generate_debug_data [simp]:
  "length (generate_debug_data env m sc n) = n"
  by (simp add: generate_debug_data_def)

lemma length_dump_loop: "length (dump_loop bs is) = 4 * length is"
  by (induction "is") simp_all

lemma length_header: "length (header n tp dt) = 3"
  by (simp add: header_def)

lemma length_trace_of_step: "length (trace_of_step bs) = length bs"
  by (simp add: trace_of_step_def)

lemma length_concat_uniform:
  "(\<And>j. j \<in> set js \<Longrightarrow> length (B j) = n) \<Longrightarrow> length (concat (map B js)) = length js * n"
  by (induction js) simp_all

lemma divisible_eq: "n mod w = 0 \<Longrightarrow> w * (n div w) = (n::nat)"
  using mult_div_mod_eq [of w n] by simp

lemma main_usage:
  "length argv < 6 \<Longrightarrow> main env w rank argv = \<lparr>stdout = [], stderr = [Usage], status = EXIT_FAILURE\<rparr>"
  by (simp add: main_def Let_def)

lemma main_not_divisible:
  assumes "6 \<le> length argv"
    and "n = nat (strtol (argv ! 3) mod 2 ^ 64)"
    and "malloc_ok env ((28 * n) mod 2 ^ 64)" and "28 * n < 2 ^ 64"
    and "n mod w \<noteq> 0"
  shows "main env w rank argv =
    aborted (if rank = 0
             then header n (strtof (argv ! 1)) (strtof (argv ! 2)) @
                  dump_loop (generate_debug_data env (strtof (argv ! 4))
                     (if 6 < length argv then strtof (argv ! 6) else Default_Debug_Acceleration_Scale) n)
                    [0..<n]
             else [])"
  using assms by (simp add: main_def Let_def partition_slice_def)

text \<open>The trace of a run of \<open>iterations\<close> steps from the array \<open>bodies\<close>.\<close>

lemma simulate_trace:
  assumes "n mod w = 0" and "length bodies = n" and "8 * iterations * n < 2 ^ 64"
  shows "print_loop
      (snd (snd (simulate s2 dt n w (n div w) iterations
          (bodies, map (\<lambda>r. map (u r) [0..<n div w]) [0..<w], []))))
      ((iterations * n * 2) mod 2 ^ 64) 0
    = concat (map (\<lambda>k. trace_of_step
        (bodies_after s2 dt n w (n div w) (Suc k)
           (bodies, map (\<lambda>r. map (u r) [0..<n div w]) [0..<w]))) [0..<iterations])"
proof -
  define bpp where "bpp = n div w"
  define locals where "locals = map (\<lambda>r. map (u r) [0..<bpp]) [0..<w]"
  have nw: "w * bpp = n" using assms(1) by (simp add: bpp_def divisible_eq)
  have l: "length bodies = w * bpp" "length locals = w" "\<forall>r<w. length (locals ! r) = bpp"
    using assms(2) nw by (simp_all add: locals_def)
  have len: "length (bodies_after s2 dt n w bpp (Suc k) (bodies, locals)) = n" for k
    using length_bodies_after [OF l, of s2 dt "Suc k"] unfolding nw .
  have total: "length (concat (map (\<lambda>k. bodies_after s2 dt n w bpp (Suc k) (bodies, locals)) [0..<iterations]))
      = iterations * n"
    using length_concat_uniform [of "[0..<iterations]" "\<lambda>k. bodies_after s2 dt n w bpp (Suc k) (bodies, locals)" n] len
    by simp
  have entries: "(iterations * n * 2) mod 2 ^ 64
      = 2 * length (concat (map (\<lambda>k. bodies_after s2 dt n w bpp (Suc k) (bodies, locals)) [0..<iterations]))"
    using assms(3) unfolding total by simp
  have acc: "snd (snd (simulate s2 dt n w bpp iterations (bodies, locals, [])))
      = concat (map (\<lambda>j. concat (map (\<lambda>b. [ax b, ay b])
                                (bodies_after s2 dt n w bpp (Suc j) (bodies, locals)))) [0..<iterations])"
    using simulate_char [OF l, of s2 dt iterations "[]"] unfolding nw by simp
  show ?thesis
    unfolding bpp_def [symmetric] locals_def [symmetric] acc entries
    by (rule print_loop_trace)
qed

lemma main_completes:
  assumes "6 \<le> length argv"
    and "n = nat (strtol (argv ! 3) mod 2 ^ 64)"
    and "malloc_ok env ((28 * n) mod 2 ^ 64)" and "28 * n < 2 ^ 64"
    and "n mod w = 0"
    and "malloc_ok env (28 * (n div w))"
    and "size_t_of_f32 (strtof (argv ! 1) / strtof (argv ! 2)) = Some iterations"
    and "rank = 0 \<longrightarrow> malloc_ok env ((4 * ((iterations * n * 2) mod 2 ^ 64)) mod 2 ^ 64)"
    and "n \<le> INT_MAX"
    and "rank = 0 \<longrightarrow> 8 * iterations * n < 2 ^ 64"
    and "bodies = generate_debug_data env (strtof (argv ! 4))
           (if 6 < length argv then strtof (argv ! 6) else Default_Debug_Acceleration_Scale) n"
  shows "main env w rank argv =
    \<lparr>stdout =
       (if rank = 0
        then header n (strtof (argv ! 1)) (strtof (argv ! 2)) @ dump_loop bodies [0..<n] @
             concat (map (\<lambda>k. trace_of_step
               (bodies_after (strtof (argv ! 5) * strtof (argv ! 5)) (strtof (argv ! 2)) n w (n div w) (Suc k)
                  (bodies, map (\<lambda>r. map (uninitialized env r) [0..<n div w]) [0..<w]))) [0..<iterations])
        else []),
     stderr = [], status = EXIT_SUCCESS\<rparr>"
proof -
  have c1: "(length argv < 6) = False" using assms(1) by simp
  have c2: "malloc_ok env ((28 * n) mod 2 ^ 64) = True" using assms(3) by simp
  have c3: "(2 ^ 64 \<le> 28 * n) = False" using assms(4) by simp
  have c4: "partition_slice n w rank = Inr (rank * (n div w), n div w)"
    using assms(5) by (simp add: partition_slice_def)
  have c5: "malloc_ok env (28 * (n div w)) = True" using assms(6) by simp
  have c8: "(INT_MAX < n) = False" using assms(9) by simp
  have len: "length bodies = n" using assms(11) by simp
  note start = main_def Let_def assms(2) [symmetric] assms(11) [symmetric]
  note rules = c1 c2 c3 c4 c5 assms(7) c8 simp_thms if_True if_False option.case sum.sel
    sum.distinct snd_conv fst_conv
  show ?thesis
  proof (cases "rank = 0")
    case True
    have r: "(rank = 0) = True" using True by simp
    have c7: "malloc_ok env ((4 * ((iterations * n * 2) mod 2 ^ 64)) mod 2 ^ 64) = True"
      using assms(8) True by simp
    have fits: "8 * iterations * n < 2 ^ 64" using assms(10) True by simp
    then have c9: "(2 ^ 64 \<le> 8 * iterations * n) = False" by simp
    show ?thesis
      apply (simp only: start)
      apply (simp only: rules r c7 c9 simulate_trace [OF assms(5) len fits] append_assoc)
      done
  next
    case False
    then have r: "(rank = 0) = False" by simp
    show ?thesis
      apply (simp only: start)
      apply (simp only: rules r append_Nil2)
      done
  qed
qed

section \<open>The number of steps and the trace\<close>

lemma size_t_floor:
  assumes "floor_f32 q = Some f" and "0 \<le> f" and "f < 2 ^ 64"
  shows "size_t_of_f32 q = Some (nat f)"
proof (cases q)
  case (Finite s m e)
  have ip: "int (integral_part m e) = (if 0 \<le> e then int m * 2 ^ nat e else int m div 2 ^ nat (- e))"
    by (simp add: integral_part_def zdiv_int)
  show ?thesis
  proof (cases s)
    case False
    with assms(1) Finite ip have f: "f = int (integral_part m e)"
      by (auto simp: signed_def split: if_splits)
    then have "integral_part m e < 2 ^ 64" using assms(3) by (simp add: nat_less_iff [symmetric])
    then show ?thesis using Finite False f by simp
  next
    case True
    have "m = 0"
    proof (rule ccontr)
      assume "m \<noteq> 0"
      then have neg: "- int m < 0" by simp
      have "f < 0"
      proof (cases "0 \<le> e")
        case e: True
        then have "f = - int m * 2 ^ nat e" using assms(1) Finite True by (auto simp: signed_def)
        then show ?thesis using neg by (simp add: mult_less_0_iff)
      next
        case e: False
        then have "f = (- int m) div 2 ^ nat (- e)" using assms(1) Finite True by (auto simp: signed_def)
        then show ?thesis using neg by (simp add: pos_imp_zdiv_neg_iff)
      qed
      then show False using assms(2) by simp
    qed
    then show ?thesis using assms(1) Finite True by (auto simp: integral_part_def signed_def)
  qed
qed (use assms in simp_all)

text \<open>
  Claim C5. In a run of the leader that completes (enough arguments, a body count that
  the worker count divides and that an \<^verbatim>\<open>int\<close> holds, allocations that succeed and
  sizes that do not wrap), when the floor \<open>f\<close> of \<open>time_period / delta_time\<close> is a number
  of steps, that is \<open>0 \<le> f < 2^64\<close>: the conversion to \<^verbatim>\<open>size_t\<close> gives \<open>f\<close>
  iterations, and the output is the header, the dump of the generated bodies and then
  the trace, which has \<open>f * body_count\<close> lines: for each step in turn, one line
  \<open>ax ay\<close> for each body in index order, from the array as the exchange of that step
  has left it.
\<close>

theorem trace_is_step_major:
  assumes "6 \<le> length argv"
    and "n = nat (strtol (argv ! 3) mod 2 ^ 64)"
    and "n \<le> INT_MAX"
    and "n mod w = 0"
    and "malloc_ok env (28 * n)"
    and "malloc_ok env (28 * (n div w))"
    and "malloc_ok env (8 * nat f * n)"
    and "floor_f32 (strtof (argv ! 1) / strtof (argv ! 2)) = Some f"
    and "0 \<le> f" and "f < 2 ^ 64"
    and "8 * nat f * n < 2 ^ 64"
    and "bodies = generate_debug_data env (strtof (argv ! 4))
           (if 6 < length argv then strtof (argv ! 6) else Default_Debug_Acceleration_Scale) n"
    and "trace = concat (map (\<lambda>k. trace_of_step
               (bodies_after (strtof (argv ! 5) * strtof (argv ! 5)) (strtof (argv ! 2)) n w (n div w) (Suc k)
                  (bodies, map (\<lambda>r. map (uninitialized env r) [0..<n div w]) [0..<w]))) [0..<nat f])"
  shows "size_t_of_f32 (strtof (argv ! 1) / strtof (argv ! 2)) = Some (nat f) \<and>
    main env w 0 argv =
      \<lparr>stdout = header n (strtof (argv ! 1)) (strtof (argv ! 2)) @ dump_loop bodies [0..<n] @ trace,
       stderr = [], status = EXIT_SUCCESS\<rparr> \<and>
    length trace = nat f * n"
proof -
  have it: "size_t_of_f32 (strtof (argv ! 1) / strtof (argv ! 2)) = Some (nat f)"
    using assms(8-10) by (rule size_t_floor)
  have small: "28 * n < 2 ^ 64" using assms(3) by (simp add: INT_MAX_def)
  then have m1: "malloc_ok env ((28 * n) mod 2 ^ 64)" using assms(5) by simp
  have e: "(4 * ((nat f * n * 2) mod 2 ^ 64)) mod 2 ^ 64 = 8 * nat f * n"
    using assms(11) by simp
  have m3: "(0::nat) = 0 \<longrightarrow> malloc_ok env ((4 * ((nat f * n * 2) mod 2 ^ 64)) mod 2 ^ 64)"
    unfolding e using assms(7) by simp
  have fits: "(0::nat) = 0 \<longrightarrow> 8 * nat f * n < 2 ^ 64" using assms(11) by simp
  have run: "main env w 0 argv =
      \<lparr>stdout = header n (strtof (argv ! 1)) (strtof (argv ! 2)) @ dump_loop bodies [0..<n] @ trace,
       stderr = [], status = EXIT_SUCCESS\<rparr>"
    using main_completes [OF assms(1,2) m1 small assms(4,6) it m3 assms(3) fits assms(12)]
    unfolding assms(13) by simp
  have l: "length bodies = w * (n div w)" using assms(4,12) by (simp add: divisible_eq)
  have "length (bodies_after (strtof (argv ! 5) * strtof (argv ! 5)) (strtof (argv ! 2)) n w (n div w) (Suc k)
                  (bodies, map (\<lambda>r. map (uninitialized env r) [0..<n div w]) [0..<w])) = n" for k
    using length_bodies_after [OF l, of "map (\<lambda>r. map (uninitialized env r) [0..<n div w]) [0..<w]"
        "strtof (argv ! 5) * strtof (argv ! 5)" "strtof (argv ! 2)" "Suc k"] assms(4)
    by (simp add: divisible_eq)
  then have "length trace = nat f * n"
    unfolding assms(13)
    using length_concat_uniform [of "[0..<nat f]" "\<lambda>k. trace_of_step
               (bodies_after (strtof (argv ! 5) * strtof (argv ! 5)) (strtof (argv ! 2)) n w (n div w) (Suc k)
                  (bodies, map (\<lambda>r. map (uninitialized env r) [0..<n div w]) [0..<w]))" n]
    by (simp add: length_trace_of_step)
  with it run show ?thesis by simp
qed

subsection \<open>The example run\<close>

lemma example_unit_random:
  "unit_random example_env 0 = 0" "unit_random example_env 1 = 0" "unit_random example_env 2 = 0"
  "unit_random example_env 3 = half" "unit_random example_env 4 = 0"
  "unit_random example_env 5 = 0" "unit_random example_env 6 = 1" "unit_random example_env 7 = 0"
  "unit_random example_env 8 = half" "unit_random example_env 9 = 0"
  by (simp_all add: unit_random_def example_env_def f32_eval)

lemma example_bodies:
  "generate_debug_data example_env 1 Default_Debug_Acceleration_Scale 2
     = [\<lparr>x = 0, y = 0, ax = 0, ay = 0, vx = 0, vy = 0, mass = 1\<rparr>,
        \<lparr>x = 1, y = 0, ax = 0, ay = 0, vx = 0, vy = 0, mass = 1\<rparr>]"
  by (simp add: generate_debug_data_def generate_body_def upt_rec Let_def unit_random_def
      example_env_def Default_Debug_Acceleration_Scale_def f32_eval)

lemma example_step1:
  "map (advance_body (0 * 0) quarter
          [\<lparr>x = 0, y = 0, ax = 0, ay = 0, vx = 0, vy = 0, mass = 1\<rparr>,
           \<lparr>x = 1, y = 0, ax = 0, ay = 0, vx = 0, vy = 0, mass = 1\<rparr>]) [0..<2]
     = [\<lparr>x = Finite False 8388608 (- 27), y = 0, ax = 1, ay = 0,
          vx = Finite False 8388608 (- 25), vy = 0, mass = 1\<rparr>,
        \<lparr>x = Finite False 15728640 (- 24), y = 0, ax = Finite True 8388608 (- 23), ay = 0,
          vx = Finite True 8388608 (- 25), vy = 0, mass = 1\<rparr>]"
  by (simp add: advance_body_def stored_body_def total_acceleration_def
      calculate_newton_gravity_acceleration_def integrate_def upt_rec Let_def f32_eval)

lemma example_step2:
  "map (advance_body (0 * 0) quarter
          [\<lparr>x = Finite False 8388608 (- 27), y = 0, ax = 1, ay = 0,
             vx = Finite False 8388608 (- 25), vy = 0, mass = 1\<rparr>,
           \<lparr>x = Finite False 15728640 (- 24), y = 0, ax = Finite True 8388608 (- 23), ay = 0,
             vx = Finite True 8388608 (- 25), vy = 0, mass = 1\<rparr>]) [0..<2]
     = [\<lparr>x = Finite False 13866883 (- 26), y = 0, ax = Finite False 10956550 (- 23), ay = 0,
          vx = Finite False 9672579 (- 24), vy = 0, mass = 1\<rparr>,
        \<lparr>x = Finite False 13310495 (- 24), y = 0, ax = Finite True 10956550 (- 23), ay = 0,
          vx = Finite True 9672579 (- 24), vy = 0, mass = 1\<rparr>]"
  by (simp add: advance_body_def stored_body_def total_acceleration_def
      calculate_newton_gravity_acceleration_def integrate_def upt_rec Let_def f32_eval)

lemma example_after:
  "bodies_after (0 * 0) quarter 2 2 (Suc 0) (Suc 0)
     ([\<lparr>x = 0, y = 0, ax = 0, ay = 0, vx = 0, vy = 0, mass = 1\<rparr>,
       \<lparr>x = 1, y = 0, ax = 0, ay = 0, vx = 0, vy = 0, mass = 1\<rparr>],
      [[u0], [u1]])
     = [\<lparr>x = Finite False 8388608 (- 27), y = 0, ax = 1, ay = 0,
          vx = Finite False 8388608 (- 25), vy = 0, mass = 1\<rparr>,
        \<lparr>x = Finite False 15728640 (- 24), y = 0, ax = Finite True 8388608 (- 23), ay = 0,
          vx = Finite True 8388608 (- 25), vy = 0, mass = 1\<rparr>]"
  "bodies_after (0 * 0) quarter 2 2 (Suc 0) (Suc (Suc 0))
     ([\<lparr>x = 0, y = 0, ax = 0, ay = 0, vx = 0, vy = 0, mass = 1\<rparr>,
       \<lparr>x = 1, y = 0, ax = 0, ay = 0, vx = 0, vy = 0, mass = 1\<rparr>],
      [[u0], [u1]])
     = [\<lparr>x = Finite False 13866883 (- 26), y = 0, ax = Finite False 10956550 (- 23), ay = 0,
          vx = Finite False 9672579 (- 24), vy = 0, mass = 1\<rparr>,
        \<lparr>x = Finite False 13310495 (- 24), y = 0, ax = Finite True 10956550 (- 23), ay = 0,
          vx = Finite True 9672579 (- 24), vy = 0, mass = 1\<rparr>]"
proof -
  define B0 where "B0 = [\<lparr>x = 0, y = 0, ax = 0, ay = 0, vx = 0, vy = 0, mass = (1::f32)\<rparr>,
       \<lparr>x = 1, y = 0, ax = 0, ay = 0, vx = 0, vy = 0, mass = 1\<rparr>]"
  define L where "L = [[u0], [u1 :: body_t]]"
  have l: "length B0 = 2 * Suc 0" "length L = 2" "\<forall>r<2. length (L ! r) = Suc 0"
    by (simp_all add: B0_def L_def nth_Cons' less_Suc_eq numeral_2_eq_2)
  have one: "bodies_after (0 * 0) quarter (2 * Suc 0) 2 (Suc 0) (Suc 0) (B0, L)
      = map (advance_body (0 * 0) quarter B0) [0..<2]"
    using bodies_after_Suc [OF l, of "0 * 0" quarter 0] by (simp add: bodies_after_0)
  have two: "bodies_after (0 * 0) quarter (2 * Suc 0) 2 (Suc 0) (Suc (Suc 0)) (B0, L)
      = map (advance_body (0 * 0) quarter (map (advance_body (0 * 0) quarter B0) [0..<2])) [0..<2]"
    using bodies_after_Suc [OF l, of "0 * 0" quarter "Suc 0"] one by simp
  show "bodies_after (0 * 0) quarter 2 2 (Suc 0) (Suc 0)
     ([\<lparr>x = 0, y = 0, ax = 0, ay = 0, vx = 0, vy = 0, mass = 1\<rparr>,
       \<lparr>x = 1, y = 0, ax = 0, ay = 0, vx = 0, vy = 0, mass = 1\<rparr>],
      [[u0], [u1]])
     = [\<lparr>x = Finite False 8388608 (- 27), y = 0, ax = 1, ay = 0,
          vx = Finite False 8388608 (- 25), vy = 0, mass = 1\<rparr>,
        \<lparr>x = Finite False 15728640 (- 24), y = 0, ax = Finite True 8388608 (- 23), ay = 0,
          vx = Finite True 8388608 (- 25), vy = 0, mass = 1\<rparr>]"
    using one unfolding B0_def L_def example_step1 by simp
  show "bodies_after (0 * 0) quarter 2 2 (Suc 0) (Suc (Suc 0))
     ([\<lparr>x = 0, y = 0, ax = 0, ay = 0, vx = 0, vy = 0, mass = 1\<rparr>,
       \<lparr>x = 1, y = 0, ax = 0, ay = 0, vx = 0, vy = 0, mass = 1\<rparr>],
      [[u0], [u1]])
     = [\<lparr>x = Finite False 13866883 (- 26), y = 0, ax = Finite False 10956550 (- 23), ay = 0,
          vx = Finite False 9672579 (- 24), vy = 0, mass = 1\<rparr>,
        \<lparr>x = Finite False 13310495 (- 24), y = 0, ax = Finite True 10956550 (- 23), ay = 0,
          vx = Finite True 9672579 (- 24), vy = 0, mass = 1\<rparr>]"
    using two unfolding B0_def L_def example_step1 example_step2 by simp
qed

text \<open>
  The run \<^verbatim>\<open>nbody 0.5 0.25 2 1 0\<close> of the example, with two workers: two steps; the
  trace has the accelerations 1 and -1 of the two bodies after the first step and then
  their accelerations after the second.
\<close>

theorem trace_is_step_major_witness:
  "floor_f32 (strtof (example_argv ! 1) / strtof (example_argv ! 2)) = Some 2 \<and>
   main example_env 2 0 example_argv =
     \<lparr>stdout =
        [Line_zu 2, Line_f half, Line_f quarter,
         Line_ff 0 0, Line_ff 0 0, Line_ff 0 0, Line_f 1,
         Line_ff 1 0, Line_ff 0 0, Line_ff 0 0, Line_f 1,
         Line_ff 1 0, Line_ff (Finite True 8388608 (- 23)) 0,
         Line_ff (Finite False 10956550 (- 23)) 0, Line_ff (Finite True 10956550 (- 23)) 0],
      stderr = [], status = EXIT_SUCCESS\<rparr>"
proof -
  have h1: "6 \<le> length example_argv" by (simp add: example_argv_def)
  have h2: "(2::nat) = nat (strtol (example_argv ! 3) mod 2 ^ 64)" by (simp add: example_argv_def)
  have h3: "(2::nat) \<le> INT_MAX" by (simp add: INT_MAX_def)
  have h4: "(2::nat) mod 2 = 0" by simp
  have m: "malloc_ok example_env k" for k by (simp add: example_env_def)
  have h8: "floor_f32 (strtof (example_argv ! 1) / strtof (example_argv ! 2)) = Some 2"
    by (simp add: example_argv_def f32_eval)
  have h9: "(0::int) \<le> 2" "(2::int) < 2 ^ 64" by simp_all
  have h11: "8 * nat 2 * (2::nat) < 2 ^ 64" by simp
  note t = trace_is_step_major [OF h1 h2 h3 h4 m m m h8 h9 h11 refl refl]
  have "main example_env 2 0 example_argv =
      \<lparr>stdout = header 2 (strtof (example_argv ! 1)) (strtof (example_argv ! 2)) @
         dump_loop (generate_debug_data example_env (strtof (example_argv ! 4))
           (if 6 < length example_argv then strtof (example_argv ! 6) else Default_Debug_Acceleration_Scale) 2)
           [0..<2] @
         concat (map (\<lambda>k. trace_of_step
               (bodies_after (strtof (example_argv ! 5) * strtof (example_argv ! 5)) (strtof (example_argv ! 2))
                  2 2 (2 div 2) (Suc k)
                  (generate_debug_data example_env (strtof (example_argv ! 4))
                     (if 6 < length example_argv then strtof (example_argv ! 6) else Default_Debug_Acceleration_Scale) 2,
                   map (\<lambda>r. map (uninitialized example_env r) [0..<2 div 2]) [0..<2]))) [0..<nat 2]),
       stderr = [], status = EXIT_SUCCESS\<rparr>"
    using t by blast
  then have "main example_env 2 0 example_argv =
     \<lparr>stdout =
        [Line_zu 2, Line_f half, Line_f quarter,
         Line_ff 0 0, Line_ff 0 0, Line_ff 0 0, Line_f 1,
         Line_ff 1 0, Line_ff 0 0, Line_ff 0 0, Line_f 1,
         Line_ff 1 0, Line_ff (Finite True 8388608 (- 23)) 0,
         Line_ff (Finite False 10956550 (- 23)) 0, Line_ff (Finite True 10956550 (- 23)) 0],
      stderr = [], status = EXIT_SUCCESS\<rparr>"
    by (simp add: example_argv_def example_bodies example_after header_def trace_of_step_def upt_rec)
  with h8 show ?thesis by simp
qed

section \<open>Runs without steps, runs that fail, and what a run depends on\<close>

text \<open>
  Claim C10. In a run of the leader with enough arguments, a body count that the worker
  count divides and that an \<^verbatim>\<open>int\<close> holds, and allocations that succeed (also the
  one of no bytes for the trace): when the floor of \<open>time_period / delta_time\<close> is 0,
  the number of iterations is 0, the loop over the steps leaves every state as it is,
  the output is the header and the dump of the generated bodies with no line of trace
  after them, nothing is written to the error stream and \<^verbatim>\<open>main\<close> returns
  \<^verbatim>\<open>EXIT_SUCCESS\<close>.
\<close>

theorem no_steps_when_floor_is_zero:
  assumes "6 \<le> length argv"
    and "n = nat (strtol (argv ! 3) mod 2 ^ 64)"
    and "n \<le> INT_MAX"
    and "n mod w = 0"
    and "malloc_ok env (28 * n)"
    and "malloc_ok env (28 * (n div w))"
    and "malloc_ok env 0"
    and "floor_f32 (strtof (argv ! 1) / strtof (argv ! 2)) = Some 0"
    and "bodies = generate_debug_data env (strtof (argv ! 4))
           (if 6 < length argv then strtof (argv ! 6) else Default_Debug_Acceleration_Scale) n"
  shows "size_t_of_f32 (strtof (argv ! 1) / strtof (argv ! 2)) = Some 0 \<and>
    simulate (strtof (argv ! 5) * strtof (argv ! 5)) (strtof (argv ! 2)) n w (n div w) 0 st = st \<and>
    main env w 0 argv =
      \<lparr>stdout = header n (strtof (argv ! 1)) (strtof (argv ! 2)) @ dump_loop bodies [0..<n],
       stderr = [], status = EXIT_SUCCESS\<rparr>"
proof -
  have it: "size_t_of_f32 (strtof (argv ! 1) / strtof (argv ! 2)) = Some 0"
    using size_t_floor [OF assms(8)] by simp
  have small: "28 * n < 2 ^ 64" using assms(3) by (simp add: INT_MAX_def)
  then have m1: "malloc_ok env ((28 * n) mod 2 ^ 64)" using assms(5) by simp
  have m3: "(0::nat) = 0 \<longrightarrow> malloc_ok env ((4 * ((0 * n * 2) mod 2 ^ 64)) mod 2 ^ 64)"
    using assms(7) by simp
  have fits: "(0::nat) = 0 \<longrightarrow> 8 * 0 * n < (2::nat) ^ 64" by simp
  have "main env w 0 argv =
      \<lparr>stdout = header n (strtof (argv ! 1)) (strtof (argv ! 2)) @ dump_loop bodies [0..<n],
       stderr = [], status = EXIT_SUCCESS\<rparr>"
    using main_completes [OF assms(1,2) m1 small assms(4,6) it m3 assms(3) fits assms(9)] by simp
  with it show ?thesis by simp
qed

text \<open>
  The run \<^verbatim>\<open>nbody 0.25 0.5 2 1 0\<close> of the example, with two workers: the quotient is
  one half, no step is made, and the output ends with the dump.
\<close>

theorem no_steps_when_floor_is_zero_witness:
  "floor_f32 (quarter / half) = Some 0 \<and>
   main example_env 2 0 [Arg 0 0, Arg quarter 0, Arg half 0, Arg two 2, Arg 1 1, Arg 0 0] =
     \<lparr>stdout =
        [Line_zu 2, Line_f quarter, Line_f half,
         Line_ff 0 0, Line_ff 0 0, Line_ff 0 0, Line_f 1,
         Line_ff 1 0, Line_ff 0 0, Line_ff 0 0, Line_f 1],
      stderr = [], status = EXIT_SUCCESS\<rparr>"
proof -
  define argv where "argv = [Arg 0 0, Arg quarter 0, Arg half 0, Arg two 2, Arg 1 1, Arg 0 0]"
  have h1: "6 \<le> length argv" by (simp add: argv_def)
  have h2: "(2::nat) = nat (strtol (argv ! 3) mod 2 ^ 64)" by (simp add: argv_def)
  have h3: "(2::nat) \<le> INT_MAX" by (simp add: INT_MAX_def)
  have h4: "(2::nat) mod 2 = 0" by simp
  have m: "malloc_ok example_env k" for k by (simp add: example_env_def)
  have fl: "floor_f32 (quarter / half) = Some 0" by (simp add: f32_eval)
  then have h8: "floor_f32 (strtof (argv ! 1) / strtof (argv ! 2)) = Some 0" by (simp add: argv_def)
  from no_steps_when_floor_is_zero [OF h1 h2 h3 h4 m m m h8 refl]
  have "main example_env 2 0 argv =
      \<lparr>stdout = header 2 (strtof (argv ! 1)) (strtof (argv ! 2)) @
         dump_loop (generate_debug_data example_env (strtof (argv ! 4))
           (if 6 < length argv then strtof (argv ! 6) else Default_Debug_Acceleration_Scale) 2) [0..<2],
       stderr = [], status = EXIT_SUCCESS\<rparr>"
    by blast
  then have "main example_env 2 0 argv =
     \<lparr>stdout =
        [Line_zu 2, Line_f quarter, Line_f half,
         Line_ff 0 0, Line_ff 0 0, Line_ff 0 0, Line_f 1,
         Line_ff 1 0, Line_ff 0 0, Line_ff 0 0, Line_f 1],
      stderr = [], status = EXIT_SUCCESS\<rparr>"
    by (simp add: argv_def example_bodies header_def upt_rec)
  with fl show ?thesis unfolding argv_def by simp
qed

text \<open>
  Claim C6, as the code has it. With fewer than five arguments every process writes the
  usage message to the error stream, prints nothing and returns \<^verbatim>\<open>EXIT_FAILURE\<close>. With
  enough arguments, an array of bodies that could be allocated, and a body count that the
  worker count does not divide, every process fails the assertion (a message on the error
  stream, the process aborted) before the first step: nothing of the trace is printed, and
  a process other than the leader has printed nothing. The leader, though, has by then
  generated the bodies and printed the header and the whole dump of the initial state: the
  assertion comes after them in \<^verbatim>\<open>main\<close>.
\<close>

theorem configuration_errors_stop_the_run:
  "(length argv < 6 \<longrightarrow>
      main env w rank argv = \<lparr>stdout = [], stderr = [Usage], status = EXIT_FAILURE\<rparr>) \<and>
   (6 \<le> length argv \<and> n = nat (strtol (argv ! 3) mod 2 ^ 64) \<and>
    malloc_ok env ((28 * n) mod 2 ^ 64) \<and> 28 * n < 2 ^ 64 \<and> n mod w \<noteq> 0 \<longrightarrow>
      main env w rank argv =
        \<lparr>stdout =
           (if rank = 0
            then header n (strtof (argv ! 1)) (strtof (argv ! 2)) @
                 dump_loop (generate_debug_data env (strtof (argv ! 4))
                    (if 6 < length argv then strtof (argv ! 6) else Default_Debug_Acceleration_Scale) n)
                   [0..<n]
            else []),
         stderr = [Assertion_Failed], status = Aborted\<rparr>)"
proof (intro conjI impI)
  assume "length argv < 6"
  then show "main env w rank argv = \<lparr>stdout = [], stderr = [Usage], status = EXIT_FAILURE\<rparr>"
    by (rule main_usage)
next
  assume a: "6 \<le> length argv \<and> n = nat (strtol (argv ! 3) mod 2 ^ 64) \<and>
    malloc_ok env ((28 * n) mod 2 ^ 64) \<and> 28 * n < 2 ^ 64 \<and> n mod w \<noteq> 0"
  then have "6 \<le> length argv" "n = nat (strtol (argv ! 3) mod 2 ^ 64)"
    "malloc_ok env ((28 * n) mod 2 ^ 64)" "28 * n < 2 ^ 64" "n mod w \<noteq> 0"
    by blast+
  from main_not_divisible [OF this, of rank]
  show "main env w rank argv =
        \<lparr>stdout =
           (if rank = 0
            then header n (strtof (argv ! 1)) (strtof (argv ! 2)) @
                 dump_loop (generate_debug_data env (strtof (argv ! 4))
                    (if 6 < length argv then strtof (argv ! 6) else Default_Debug_Acceleration_Scale) n)
                   [0..<n]
            else []),
         stderr = [Assertion_Failed], status = Aborted\<rparr>"
    by (simp only: aborted_def)
qed

lemma example_one_body:
  "generate_debug_data example_env 1 Default_Debug_Acceleration_Scale (Suc 0)
     = [\<lparr>x = 0, y = 0, ax = 0, ay = 0, vx = 0, vy = 0, mass = 1\<rparr>]"
  by (simp add: generate_debug_data_def generate_body_def upt_rec Let_def unit_random_def
      example_env_def Default_Debug_Acceleration_Scale_def f32_eval)

text \<open>
  The run \<^verbatim>\<open>nbody\<close> without arguments, and the run \<^verbatim>\<open>nbody 0.5 0.25 1 1 0\<close> of one
  body on two workers, in the leader and in the other process.
\<close>

theorem configuration_errors_stop_the_run_witness:
  "main example_env 2 0 [Arg 0 0] = \<lparr>stdout = [], stderr = [Usage], status = EXIT_FAILURE\<rparr> \<and>
   main example_env 2 0 [Arg 0 0, Arg half 0, Arg quarter 0, Arg 1 1, Arg 1 1, Arg 0 0] =
     \<lparr>stdout = [Line_zu 1, Line_f half, Line_f quarter,
                Line_ff 0 0, Line_ff 0 0, Line_ff 0 0, Line_f 1],
      stderr = [Assertion_Failed], status = Aborted\<rparr> \<and>
   main example_env 2 1 [Arg 0 0, Arg half 0, Arg quarter 0, Arg 1 1, Arg 1 1, Arg 0 0] =
     \<lparr>stdout = [], stderr = [Assertion_Failed], status = Aborted\<rparr>"
proof -
  define argv where "argv = [Arg 0 0, Arg half 0, Arg quarter 0, Arg 1 1, Arg 1 1, Arg 0 0]"
  have h: "6 \<le> length argv \<and> (1::nat) = nat (strtol (argv ! 3) mod 2 ^ 64) \<and>
    malloc_ok example_env ((28 * 1) mod 2 ^ 64) \<and> 28 * 1 < (2::nat) ^ 64 \<and> (1::nat) mod 2 \<noteq> 0"
    by (simp add: argv_def example_env_def)
  have u: "main example_env 2 0 [Arg 0 0] = \<lparr>stdout = [], stderr = [Usage], status = EXIT_FAILURE\<rparr>"
    using configuration_errors_stop_the_run [where argv = "[Arg 0 0]" and env = example_env and w = 2 and rank = 0 and n = 0] by simp
  have l: "main example_env 2 0 argv =
     \<lparr>stdout = [Line_zu 1, Line_f half, Line_f quarter,
                Line_ff 0 0, Line_ff 0 0, Line_ff 0 0, Line_f 1],
      stderr = [Assertion_Failed], status = Aborted\<rparr>"
    using configuration_errors_stop_the_run [where argv = argv and env = example_env and w = 2 and rank = 0 and n = 1,
        THEN conjunct2, THEN mp, OF h]
    by (simp add: argv_def example_one_body header_def)
  have o: "main example_env 2 1 argv = \<lparr>stdout = [], stderr = [Assertion_Failed], status = Aborted\<rparr>"
    using configuration_errors_stop_the_run [where argv = argv and env = example_env and w = 2 and rank = 1 and n = 1,
        THEN conjunct2, THEN mp, OF h]
    by simp
  from u l o show ?thesis unfolding argv_def by simp
qed

lemma example_three_bodies:
  "generate_debug_data example_env 1 Default_Debug_Acceleration_Scale 3
     = [\<lparr>x = 0, y = 0, ax = 0, ay = 0, vx = 0, vy = 0, mass = 1\<rparr>,
        \<lparr>x = 1, y = 0, ax = 0, ay = 0, vx = 0, vy = 0, mass = 1\<rparr>,
        \<lparr>x = 0, y = 0, ax = 0, ay = 0, vx = 0, vy = 0, mass = 1\<rparr>]"
  by (simp add: generate_debug_data_def generate_body_def upt_rec Let_def unit_random_def
      example_env_def Default_Debug_Acceleration_Scale_def f32_eval)

text \<open>
  Claim C6, as the specification has it (no partial output), fails in the leader. The run
  \<^verbatim>\<open>nbody 0.5 0.25 3 1 0\<close> of three bodies on two workers is aborted by the assertion,
  and the leader has printed the fifteen lines of the header and the dump.
\<close>

theorem leader_prints_before_the_assertion:
  "status (main example_env 2 0
            [Arg 0 0, Arg half 0, Arg quarter 0, Arg (f32_of_nat 3) 3, Arg 1 1, Arg 0 0]) = Aborted \<and>
   stdout (main example_env 2 0
            [Arg 0 0, Arg half 0, Arg quarter 0, Arg (f32_of_nat 3) 3, Arg 1 1, Arg 0 0]) =
     [Line_zu 3, Line_f half, Line_f quarter,
      Line_ff 0 0, Line_ff 0 0, Line_ff 0 0, Line_f 1,
      Line_ff 1 0, Line_ff 0 0, Line_ff 0 0, Line_f 1,
      Line_ff 0 0, Line_ff 0 0, Line_ff 0 0, Line_f 1]"
proof -
  define argv where "argv = [Arg 0 0, Arg half 0, Arg quarter 0, Arg (f32_of_nat 3) 3, Arg 1 1, Arg 0 0]"
  have "main example_env 2 0 argv =
    aborted (if (0::nat) = 0
             then header 3 (strtof (argv ! 1)) (strtof (argv ! 2)) @
                  dump_loop (generate_debug_data example_env (strtof (argv ! 4))
                     (if 6 < length argv then strtof (argv ! 6) else Default_Debug_Acceleration_Scale) 3)
                    [0..<3]
             else [])"
    by (rule main_not_divisible) (simp_all add: argv_def example_env_def)
  then have "main example_env 2 0 argv = aborted
     [Line_zu 3, Line_f half, Line_f quarter,
      Line_ff 0 0, Line_ff 0 0, Line_ff 0 0, Line_f 1,
      Line_ff 1 0, Line_ff 0 0, Line_ff 0 0, Line_f 1,
      Line_ff 0 0, Line_ff 0 0, Line_ff 0 0, Line_f 1]"
    by (simp add: argv_def example_three_bodies header_def upt_rec)
  then show ?thesis unfolding argv_def by (simp add: aborted_def)
qed

section \<open>What the outcome of a run depends on\<close>

lemma bodies_after_fresh:
  assumes "length bodies = w * bpp"
  shows "bodies_after s2 dt (w * bpp) w bpp k (bodies, map (\<lambda>r. map (u1 r) [0..<bpp]) [0..<w])
       = bodies_after s2 dt (w * bpp) w bpp k (bodies, map (\<lambda>r. map (u2 r) [0..<bpp]) [0..<w])"
proof (induction k)
  case 0
  show ?case by (simp add: bodies_after_0)
next
  case (Suc k)
  have l1: "length (map (\<lambda>r. map (u1 r) [0..<bpp]) [0..<w]) = w"
    "\<forall>r<w. length (map (\<lambda>r. map (u1 r) [0..<bpp]) [0..<w] ! r) = bpp" by simp_all
  have l2: "length (map (\<lambda>r. map (u2 r) [0..<bpp]) [0..<w]) = w"
    "\<forall>r<w. length (map (\<lambda>r. map (u2 r) [0..<bpp]) [0..<w] ! r) = bpp" by simp_all
  show ?case
    by (simp only: bodies_after_Suc [OF assms l1] bodies_after_Suc [OF assms l2] Suc.IH)
qed

lemma print_loop_fresh:
  assumes "n mod w = 0" and "length bodies = n" and "8 * iterations * n < 2 ^ 64"
  shows "print_loop
      (snd (snd (simulate s2 dt n w (n div w) iterations
          (bodies, map (\<lambda>r. map (u1 r) [0..<n div w]) [0..<w], []))))
      ((iterations * n * 2) mod 2 ^ 64) 0
    = print_loop
      (snd (snd (simulate s2 dt n w (n div w) iterations
          (bodies, map (\<lambda>r. map (u2 r) [0..<n div w]) [0..<w], []))))
      ((iterations * n * 2) mod 2 ^ 64) 0"
proof -
  have n: "w * (n div w) = n" using assms(1) by (rule divisible_eq)
  have l: "length bodies = w * (n div w)" using assms(2) n by simp
  have "bodies_after s2 dt n w (n div w) k (bodies, map (\<lambda>r. map (u1 r) [0..<n div w]) [0..<w])
      = bodies_after s2 dt n w (n div w) k (bodies, map (\<lambda>r. map (u2 r) [0..<n div w]) [0..<w])" for k
    using bodies_after_fresh [OF l, of s2 dt k u1 u2] by (simp only: n)
  then show ?thesis
    by (simp only: simulate_trace [OF assms])
qed

lemma generate_debug_data_fresh:
  "generate_debug_data (env\<lparr>uninitialized := u\<rparr>) m s n = generate_debug_data env m s n"
  by (simp add: generate_debug_data_def generate_body_def unit_random_def)

lemma malloc_ok_fresh: "malloc_ok (env\<lparr>uninitialized := u\<rparr>) = malloc_ok env"
  by simp

lemma uninitialized_fresh: "uninitialized (env\<lparr>uninitialized := u\<rparr>) = u"
  by simp

lemma partition_slice_passed:
  "partition_slice n w rank \<noteq> Inl Assertion_Failed \<Longrightarrow>
     n mod w = 0 \<and> snd (projr (partition_slice n w rank)) = n div w"
  by (simp add: partition_slice_def split: if_splits)

lemma main_fresh: "main (env\<lparr>uninitialized := u\<rparr>) w rank argv = main env w rank argv"
  apply (simp only: main_def Let_def generate_debug_data_fresh malloc_ok_fresh uninitialized_fresh)
  apply (intro refl if_cong option.case_cong)
  subgoal premises p for iterations
  proof -
    have d: "nat (strtol (argv ! 3) mod 2 ^ 64) mod w = 0"
      and b: "snd (projr (partition_slice (nat (strtol (argv ! 3) mod 2 ^ 64)) w rank))
              = nat (strtol (argv ! 3) mod 2 ^ 64) div w"
      using partition_slice_passed p by blast+
    show ?thesis
    proof (cases "rank = 0")
      case True
      with p have f: "8 * iterations * nat (strtol (argv ! 3) mod 2 ^ 64) < 2 ^ 64"
        by (simp add: not_le)
      show ?thesis
        by (simp only: b print_loop_fresh [OF d length_generate_debug_data f, where ?u1.0 = u and ?u2.0 = "uninitialized env"])
    next
      case False
      then show ?thesis by simp
    qed
  qed
  done


section \<open>The mass of a body\<close>

lemma mass_integrate: "mass (integrate b dt) = mass b"
  by (simp add: integrate_def)

lemma mass_stored_body: "mass (stored_body s2 bs i) = mass (bs ! i)"
  by (simp add: stored_body_def)

lemma mass_advance_body: "mass (advance_body s2 dt bs i) = mass (bs ! i)"
  by (simp add: advance_body_def mass_integrate mass_stored_body)

lemma mass_bodies_after:
  assumes "length bodies = w * bpp" and "length locals = w" and "\<forall>r<w. length (locals ! r) = bpp"
    and "i < w * bpp"
  shows "mass (bodies_after s2 dt (w * bpp) w bpp k (bodies, locals) ! i) = mass (bodies ! i)"
proof (induction k)
  case 0
  show ?case by (simp add: bodies_after_0)
next
  case (Suc k)
  show ?case
    using assms(4) Suc.IH
    by (simp add: bodies_after_Suc [OF assms(1,2,3)] mass_advance_body)
qed

lemma mass_generate_debug_data:
  "i < n \<Longrightarrow> mass (generate_debug_data env m s n ! i) = m * (unit_random env (5 * i + 3) + half)"
  by (simp add: generate_debug_data_def generate_body_def Let_def)

text \<open>
  Claim C9, the part that holds. In a run whose body count the worker count divides, the
  mass of body \<open>i\<close> in the array after any number of steps is the mass the generator gave
  it, \<^verbatim>\<open>initial_body_mass * (unit_random() + 0.5f)\<close> with the fourth of the five random
  numbers drawn for the body. Within a step neither the stored sum of the forces nor the
  integrator changes it, and the exchange copies it.
\<close>

theorem mass_is_never_mutated:
  assumes "n mod w = 0"
    and "bodies = generate_debug_data env initial_body_mass debug_acceleration_scale n"
    and "length locals = w" and "\<forall>r<w. length (locals ! r) = n div w"
    and "i < n"
    and "now = bodies_after s2 dt n w (n div w) k (bodies, locals)"
  shows "mass (now ! i) = initial_body_mass * (unit_random env (5 * i + 3) + half) \<and>
         mass (stored_body s2 now i) = mass (now ! i) \<and>
         mass (integrate (stored_body s2 now i) dt) = mass (now ! i)"
proof -
  have n: "w * (n div w) = n" using assms(1) by (rule divisible_eq)
  have l: "length bodies = w * (n div w)" using assms(2) n by simp
  have i: "i < w * (n div w)" using assms(5) n by simp
  have "mass (bodies_after s2 dt (w * (n div w)) w (n div w) k (bodies, locals) ! i) = mass (bodies ! i)"
    using l assms(3,4) i by (rule mass_bodies_after)
  then have "mass (now ! i) = mass (bodies ! i)" by (simp only: n assms(6))
  also have "\<dots> = initial_body_mass * (unit_random env (5 * i + 3) + half)"
    using assms(5) by (simp only: assms(2) mass_generate_debug_data)
  finally show ?thesis by (simp add: mass_integrate mass_stored_body)
qed

text \<open>
  The second body of the example after one step of two workers: its mass is the initial
  body mass 1, as generated.
\<close>

theorem mass_is_never_mutated_witness:
  "mass (bodies_after 0 quarter 2 2 1 1
           (generate_debug_data example_env 1 Default_Debug_Acceleration_Scale 2,
            [[\<lparr>x = 0, y = 0, ax = 0, ay = 0, vx = 0, vy = 0, mass = 0\<rparr>],
             [\<lparr>x = 0, y = 0, ax = 0, ay = 0, vx = 0, vy = 0, mass = 0\<rparr>]]) ! 1) = 1 \<and>
   is_positive (1 :: f32)"
proof -
  define locals where "locals =
            [[\<lparr>x = 0, y = 0, ax = 0, ay = 0, vx = 0, vy = 0, mass = 0\<rparr>],
             [\<lparr>x = 0, y = 0, ax = 0, ay = 0, vx = (0::f32), vy = 0, mass = 0\<rparr>]]"
  have h1: "(2::nat) mod 2 = 0" by simp
  have h3: "length locals = 2" by (simp add: locals_def)
  have h4: "\<forall>r<2. length (locals ! r) = 2 div 2" by (simp add: locals_def less_Suc_eq numeral_2_eq_2)
  have h5: "(1::nat) < 2" by simp
  from mass_is_never_mutated [OF h1 refl h3 h4 h5 refl,
      where env = example_env and initial_body_mass = 1
        and debug_acceleration_scale = Default_Debug_Acceleration_Scale
        and ?s2.0 = 0 and dt = quarter and k = 1]
  have "mass (bodies_after 0 quarter 2 2 (2 div 2) 1
           (generate_debug_data example_env 1 Default_Debug_Acceleration_Scale 2, locals) ! 1)
        = 1 * (unit_random example_env (5 * 1 + 3) + half)"
    by blast
  then have "mass (bodies_after 0 quarter 2 2 1 1
           (generate_debug_data example_env 1 Default_Debug_Acceleration_Scale 2, locals) ! 1) = 1"
    by (simp add: example_unit_random f32_eval)
  moreover have "is_positive (1 :: f32)" by (simp add: f32_eval)
  ultimately show ?thesis unfolding locals_def by simp
qed

text \<open>
  Claim C9, as the specification has it (every mass strictly positive), fails: nothing
  in the program keeps the initial body mass positive. With an initial body mass of 0 the
  generator gives the first body of the example the mass 0.
\<close>

theorem generated_mass_can_be_zero:
  "mass (generate_debug_data example_env 0 Default_Debug_Acceleration_Scale 2 ! 0) = 0 \<and>
   \<not> is_positive (mass (generate_debug_data example_env 0 Default_Debug_Acceleration_Scale 2 ! 0))"
proof -
  have "mass (generate_debug_data example_env 0 Default_Debug_Acceleration_Scale 2 ! 0)
      = 0 * (unit_random example_env 3 + half)"
    by (simp add: mass_generate_debug_data)
  also have "\<dots> = 0" by (simp add: example_unit_random f32_eval)
  finally show ?thesis by (simp add: f32_eval)
qed

end
